theory Spec2Isabelle
  imports Complex_Main "HOL-Library.AList" "HOL-Library.Multiset"
begin

section \<open>Data model\<close>

text \<open>
  Course, time-slot and room identifiers are the strings of the JSON problem instance.
  A Python \<^verbatim>\<open>dict\<close> is an association list in insertion order: \<^verbatim>\<open>d[k] = v\<close> is
  \<^const>\<open>AList.update\<close> (overwrite in place, or append a new key at the end),
  \<^verbatim>\<open>d.get(k)\<close> is \<^const>\<open>map_of\<close>, \<^verbatim>\<open>d.items()\<close> is the list itself.
\<close>

type_synonym course = string
type_synonym time_slot = string
type_synonym room = string

type_synonym ('k, 'v) dict = "('k \<times> 'v) list"

text \<open>
  One entry of \<^verbatim>\<open>course_details\<close>: a dict read with \<^verbatim>\<open>.get('department')\<close>,
  \<^verbatim>\<open>.get('students', 0)\<close> and \<^verbatim>\<open>.get('instructor')\<close>, so each key may be missing.
\<close>

record details =
  department :: "string option"
  students :: "int option"
  instructor :: "string option"

definition no_details :: details where
  "no_details = \<lparr>department = None, students = None, instructor = None\<rparr>"

text \<open>The \<^verbatim>\<open>data\<close> dict both constructors read (the field \<^verbatim>\<open>times\<close> is \<open>time_slots\<close> here).\<close>

record problem =
  course_details :: "(course, details) dict"
  courses :: "course list"
  room_capacities :: "(room, int) dict"
  rooms :: "room list"
  time_slots :: "time_slot list"
  course_conflicts :: "course list list"

type_synonym schedule = "(course, time_slot \<times> room) dict"

subsection \<open>Dictionary and list primitives of Python\<close>

definition dict_get :: "('k, 'v) dict \<Rightarrow> 'k \<Rightarrow> 'v \<Rightarrow> 'v" where
  \<comment> \<open>\<^verbatim>\<open>d.get(k, default)\<close>\<close>
  "dict_get d k dflt = (case map_of d k of None \<Rightarrow> dflt | Some v \<Rightarrow> v)"

definition setdefault_append :: "('k, 'v list) dict \<Rightarrow> 'k \<Rightarrow> 'v \<Rightarrow> ('k, 'v list) dict" where
  \<comment> \<open>\<^verbatim>\<open>d.setdefault(k, []).append(v)\<close>\<close>
  "setdefault_append d k v = AList.update k (dict_get d k [] @ [v]) d"

definition truthy :: "string option \<Rightarrow> bool" where
  \<comment> \<open>\<^verbatim>\<open>if dept:\<close> on the result of \<^verbatim>\<open>.get\<close>: neither \<^verbatim>\<open>None\<close> nor the empty string\<close>
  "truthy v = (case v of None \<Rightarrow> False | Some s \<Rightarrow> s \<noteq> [])"

definition times_assigned_of :: "schedule \<Rightarrow> course list \<Rightarrow> time_slot list" where
  \<comment> \<open>\<^verbatim>\<open>[individual[course][0] for course in group if course in individual]\<close>\<close>
  "times_assigned_of individual grp =
     List.map_filter (\<lambda>course. map_option fst (map_of individual course)) grp"

definition count_extra :: "time_slot list \<Rightarrow> int \<Rightarrow> int" where
  \<comment> \<open>\<^verbatim>\<open>for t in set(times_assigned): count = times_assigned.count(t); if count > 1: conflict_count += count - 1\<close>;
      the set is walked in the order of first occurrence (the sum does not depend on the order)\<close>
  "count_extra times_assigned conflict_count =
     foldl (\<lambda>cc t. let count = count_list times_assigned t
                    in if count > 1 then cc + (int count - 1) else cc)
       conflict_count (remdups times_assigned)"

section \<open>Constraint model of the genetic engine (genetic.py)\<close>

definition ga_PENALTIES :: "int list" where
  "ga_PENALTIES = [1000, 1000, 500, 1000, 1000]"

definition ga_constraint1 :: "schedule \<Rightarrow> int" where
  "ga_constraint1 individual =
     (let assignments = foldl (\<lambda>a (course, (t, r)). setdefault_append a (t, r) course) [] individual;
          conflict_count = foldl (\<lambda>cc course_list.
              if length course_list > 1 then cc + (int (length course_list) - 1) else cc)
            0 (map snd assignments)
      in conflict_count * ga_PENALTIES ! 0)"

definition ga_constraint2 :: "schedule \<Rightarrow> (course, details) dict \<Rightarrow> (room, int) dict \<Rightarrow> int" where
  "ga_constraint2 individual cdetails rcaps =
     foldl (\<lambda>penalty (course, (t, r)).
        let enrollment = (case students (dict_get cdetails course no_details) of
                            None \<Rightarrow> 0 | Some n \<Rightarrow> n);
            room_cap = dict_get rcaps r 0
        in if room_cap < enrollment then penalty + (enrollment - room_cap) * ga_PENALTIES ! 1
           else penalty)
       0 individual"

definition ga_constraint3 :: "schedule \<Rightarrow> (course, details) dict \<Rightarrow> int" where
  "ga_constraint3 individual cdetails =
     (let dept_courses = foldl (\<lambda>dc (course, d).
              let dept = department d
              in if truthy dept then setdefault_append dc (the dept) course else dc)
            [] cdetails;
          conflict_count = foldl (\<lambda>cc (dept, courses_in_dept).
              count_extra (times_assigned_of individual courses_in_dept) cc)
            0 dept_courses
      in conflict_count * ga_PENALTIES ! 2)"

definition ga_constraint4 :: "schedule \<Rightarrow> (course, details) dict \<Rightarrow> int" where
  "ga_constraint4 individual cdetails =
     (let teacher_courses = foldl (\<lambda>tc (course, d).
              let teacher = instructor d
              in if truthy teacher then setdefault_append tc (the teacher) course else tc)
            [] cdetails;
          conflict_count = foldl (\<lambda>cc (teacher, courses_taught).
              count_extra (times_assigned_of individual courses_taught) cc)
            0 teacher_courses
      in conflict_count * ga_PENALTIES ! 3)"

definition ga_constraint5 :: "schedule \<Rightarrow> course list list \<Rightarrow> int" where
  "ga_constraint5 individual conflicts =
     (let conflict_count = foldl (\<lambda>cc grp.
              count_extra (times_assigned_of individual grp) cc)
            0 conflicts
      in conflict_count * ga_PENALTIES ! 4)"

definition ga_fitness :: "problem \<Rightarrow> schedule \<Rightarrow> int" where
  "ga_fitness P individual =
     (let total_cost = 0;
          total_cost = total_cost + ga_constraint1 individual;
          total_cost = total_cost + ga_constraint2 individual (course_details P) (room_capacities P);
          total_cost = total_cost + ga_constraint3 individual (course_details P);
          total_cost = total_cost + ga_constraint4 individual (course_details P);
          total_cost = total_cost + ga_constraint5 individual (course_conflicts P)
      in - total_cost)"

section \<open>Constraint model of the annealing engine (simulated_annealing.py)\<close>

definition sa_PENALTIES :: "int list" where
  "sa_PENALTIES = [1000, 1000, 500, 1000, 1000]"

definition sa_constraint1 :: "problem \<Rightarrow> schedule \<Rightarrow> int" where
  "sa_constraint1 P individual =
     (let assignments = foldl (\<lambda>a (course, (t, r)). setdefault_append a (t, r) course) [] individual;
          conflict_count = foldl (\<lambda>cc course_list.
              if length course_list > 1 then cc + (int (length course_list) - 1) else cc)
            0 (map snd assignments)
      in conflict_count * sa_PENALTIES ! 0)"

definition sa_constraint2 :: "problem \<Rightarrow> schedule \<Rightarrow> int" where
  "sa_constraint2 P individual =
     foldl (\<lambda>penalty (course, (t, r)).
        let enrollment = (case students (dict_get (course_details P) course no_details) of
                            None \<Rightarrow> 0 | Some n \<Rightarrow> n);
            room_cap = dict_get (room_capacities P) r 0
        in if room_cap < enrollment then penalty + (enrollment - room_cap) * sa_PENALTIES ! 1
           else penalty)
       0 individual"

definition sa_constraint3 :: "problem \<Rightarrow> schedule \<Rightarrow> int" where
  "sa_constraint3 P individual =
     (let dept_courses = foldl (\<lambda>dc (course, d).
              let dept = department d
              in if truthy dept then setdefault_append dc (the dept) course else dc)
            [] (course_details P);
          conflict_count = foldl (\<lambda>cc (dept, courses_in_dept).
              count_extra (times_assigned_of individual courses_in_dept) cc)
            0 dept_courses
      in conflict_count * sa_PENALTIES ! 2)"

definition sa_constraint4 :: "problem \<Rightarrow> schedule \<Rightarrow> int" where
  "sa_constraint4 P individual =
     (let teacher_courses = foldl (\<lambda>tc (course, d).
              let teacher = instructor d
              in if truthy teacher then setdefault_append tc (the teacher) course else tc)
            [] (course_details P);
          conflict_count = foldl (\<lambda>cc (teacher, courses_taught).
              count_extra (times_assigned_of individual courses_taught) cc)
            0 teacher_courses
      in conflict_count * sa_PENALTIES ! 3)"

definition sa_constraint5 :: "problem \<Rightarrow> schedule \<Rightarrow> int" where
  "sa_constraint5 P individual =
     (let conflict_count = foldl (\<lambda>cc grp.
              count_extra (times_assigned_of individual grp) cc)
            0 (course_conflicts P)
      in conflict_count * sa_PENALTIES ! 4)"

definition sa_fitness :: "problem \<Rightarrow> schedule \<Rightarrow> int" where
  "sa_fitness P individual =
     (let total_cost = 0;
          total_cost = total_cost + sa_constraint1 P individual;
          total_cost = total_cost + sa_constraint2 P individual;
          total_cost = total_cost + sa_constraint3 P individual;
          total_cost = total_cost + sa_constraint4 P individual;
          total_cost = total_cost + sa_constraint5 P individual
      in - total_cost)"

section \<open>Runtime model: exceptions, the random source, object store\<close>

text \<open>
  Every \<^verbatim>\<open>raise\<close> of the interpreter that the engines can reach is a value: a function
  that can raise returns \<open>py_error + result\<close>, with \<open>Inl\<close> for the exception.
\<close>

datatype py_error =
  ValueError | IndexError | KeyError | AttributeError | OverflowError | ZeroDivisionError

text \<open>
  The module-level random generator is an infinite tape of raw draws, consumed from the
  front. \<^verbatim>\<open>random.random()\<close> turns one draw into a multiple of \<open>2\<^sup>-\<^sup>5\<^sup>3\<close> in \<open>[0, 1)\<close>,
  \<^verbatim>\<open>random.choice(seq)\<close> turns one draw into an index below \<^verbatim>\<open>len(seq)\<close> and raises
  IndexError on an empty sequence, \<^verbatim>\<open>random.sample(population, k)\<close> raises ValueError when
  \<open>k\<close> exceeds the population and otherwise draws \<open>k\<close> distinct positions (selection from
  a shrinking pool). Every outcome the library can produce is the outcome of some tape.
\<close>

type_synonym rng = "nat \<Rightarrow> nat"

definition rng_tail :: "rng \<Rightarrow> rng" where
  "rng_tail g = (\<lambda>i. g (Suc i))"

definition random_random :: "rng \<Rightarrow> real \<times> rng" where
  "random_random g = (real (g 0 mod 2 ^ 53) / 2 ^ 53, rng_tail g)"

definition random_choice :: "'a list \<Rightarrow> rng \<Rightarrow> py_error + 'a \<times> rng" where
  "random_choice seq g =
     (if seq = [] then Inl IndexError else Inr (seq ! (g 0 mod length seq), rng_tail g))"

fun sample_pool :: "'a list \<Rightarrow> nat \<Rightarrow> rng \<Rightarrow> 'a list \<times> rng" where
  "sample_pool pool 0 g = ([], g)"
| "sample_pool pool (Suc k) g =
     (let j = g 0 mod length pool
      in case sample_pool (butlast (pool[j := last pool])) k (rng_tail g) of
           (result, g') \<Rightarrow> (pool ! j # result, g'))"

definition random_sample :: "'a list \<Rightarrow> nat \<Rightarrow> rng \<Rightarrow> py_error + 'a list \<times> rng" where
  "random_sample pop k g =
     (if k > length pop then Inl ValueError else Inr (sample_pool pop k g))"

definition dict_getitem :: "('k, 'v) dict \<Rightarrow> 'k \<Rightarrow> py_error + 'v" where
  \<comment> \<open>\<^verbatim>\<open>d[k]\<close>\<close>
  "dict_getitem d k = (case map_of d k of None \<Rightarrow> Inl KeyError | Some v \<Rightarrow> Inr v)"

definition list_getitem :: "'a list \<Rightarrow> nat \<Rightarrow> py_error + 'a" where
  \<comment> \<open>\<^verbatim>\<open>xs[i]\<close> for \<open>i \<ge> 0\<close>\<close>
  "list_getitem xs i = (if i < length xs then Inr (xs ! i) else Inl IndexError)"

fun py_max :: "int list \<Rightarrow> py_error + int" where
  \<comment> \<open>\<^verbatim>\<open>max(xs)\<close>\<close>
  "py_max [] = Inl ValueError"
| "py_max (x # xs) = Inr (fold max xs x)"

fun max_key :: "('a \<Rightarrow> int) \<Rightarrow> 'a list \<Rightarrow> py_error + 'a" where
  \<comment> \<open>\<^verbatim>\<open>max(xs, key=f)\<close>: the first element with the largest key\<close>
  "max_key f [] = Inl ValueError"
| "max_key f (x # xs) = Inr (fold (\<lambda>y best. if f y > f best then y else best) xs x)"

fun list_index :: "'a list \<Rightarrow> 'a \<Rightarrow> py_error + nat" where
  \<comment> \<open>\<^verbatim>\<open>xs.index(x)\<close>\<close>
  "list_index [] x = Inl ValueError"
| "list_index (y # ys) x =
     (if y = x then Inr 0
      else case list_index ys x of Inl e \<Rightarrow> Inl e | Inr i \<Rightarrow> Inr (Suc i))"

definition range_step2 :: "nat \<Rightarrow> nat list" where
  \<comment> \<open>\<^verbatim>\<open>range(0, n, 2)\<close>\<close>
  "range_step2 n = map (\<lambda>k. 2 * k) [0..<(n + 1) div 2]"

text \<open>
  Schedules are mutable dicts that the engines pass by reference, so they live in an
  object store: a list of schedules, an address being an index into it. Allocation
  appends; an in-place update of the dict at address \<open>a\<close> is \<open>heap[a := d]\<close>.
\<close>

type_synonym ref = nat
type_synonym heap = "schedule list"

section \<open>Operators shared by both engines\<close>

text \<open>\<^verbatim>\<open>create_individual\<close> (the same text in both classes).\<close>

fun create_individual_loop ::
  "problem \<Rightarrow> course list \<Rightarrow> schedule \<Rightarrow> rng \<Rightarrow> py_error + schedule \<times> rng" where
  "create_individual_loop P [] schedule g = Inr (schedule, g)"
| "create_individual_loop P (course # cs) schedule g =
     (case random_choice (time_slots P) g of Inl e \<Rightarrow> Inl e
      | Inr (t, g1) \<Rightarrow>
          (case random_choice (rooms P) g1 of Inl e \<Rightarrow> Inl e
           | Inr (r, g2) \<Rightarrow>
               create_individual_loop P cs (AList.update course (t, r) schedule) g2))"

definition create_individual :: "problem \<Rightarrow> rng \<Rightarrow> py_error + schedule \<times> rng" where
  "create_individual P g = create_individual_loop P (courses P) [] g"

section \<open>Genetic engine (genetic.py)\<close>

record ga_config =
  population_size :: int
  mutation_rate :: real
  generations :: int

text \<open>
  The attributes of a \<^verbatim>\<open>GeneticAlgorithm\<close> object that \<^verbatim>\<open>run\<close> changes, and the object
  store. \<open>ga_best_fitness = None\<close> is \<^verbatim>\<open>float('-inf')\<close>, \<open>ga_best_individual = None\<close> is
  \<^verbatim>\<open>None\<close>.
\<close>

record ga_state =
  ga_heap :: heap
  population :: "ref list"
  ga_best_individual :: "ref option"
  ga_best_fitness :: "int option"
  current_best_history :: "int list"

fun create_population :: "problem \<Rightarrow> nat \<Rightarrow> rng \<Rightarrow> py_error + schedule list \<times> rng" where
  \<comment> \<open>\<^verbatim>\<open>[self.create_individual() for _ in range(population_size)]\<close>\<close>
  "create_population P 0 g = Inr ([], g)"
| "create_population P (Suc n) g =
     (case create_individual P g of Inl e \<Rightarrow> Inl e
      | Inr (ind, g1) \<Rightarrow>
          (case create_population P n g1 of Inl e \<Rightarrow> Inl e
           | Inr (inds, g2) \<Rightarrow> Inr (ind # inds, g2)))"

definition ga_init :: "ga_config \<Rightarrow> problem \<Rightarrow> rng \<Rightarrow> py_error + ga_state \<times> rng" where
  \<comment> \<open>\<^verbatim>\<open>GeneticAlgorithm.__init__\<close>\<close>
  "ga_init cfg P g =
     (case create_population P (nat (population_size cfg)) g of Inl e \<Rightarrow> Inl e
      | Inr (inds, g1) \<Rightarrow>
          Inr (\<lparr>ga_heap = inds, population = [0..<length inds], ga_best_individual = None,
                ga_best_fitness = None, current_best_history = []\<rparr>, g1))"

fun mutate_loop ::
  "problem \<Rightarrow> real \<Rightarrow> course list \<Rightarrow> schedule \<Rightarrow> rng \<Rightarrow> py_error + schedule \<times> rng" where
  "mutate_loop P rate [] individual g = Inr (individual, g)"
| "mutate_loop P rate (course # cs) individual g =
     (case random_random g of
        (u, g1) \<Rightarrow>
          if u < rate then
            (case random_choice (time_slots P) g1 of Inl e \<Rightarrow> Inl e
             | Inr (t, g2) \<Rightarrow>
                 (case random_choice (rooms P) g2 of Inl e \<Rightarrow> Inl e
                  | Inr (r, g3) \<Rightarrow>
                      mutate_loop P rate cs (AList.update course (t, r) individual) g3))
          else mutate_loop P rate cs individual g1)"

definition mutate :: "problem \<Rightarrow> real \<Rightarrow> schedule \<Rightarrow> rng \<Rightarrow> py_error + schedule \<times> rng" where
  \<comment> \<open>the dict that \<^verbatim>\<open>mutate\<close> leaves at the address it was given (and returns)\<close>
  "mutate P rate individual g = mutate_loop P rate (map fst individual) individual g"

fun crossover_loop ::
  "course list \<Rightarrow> schedule \<Rightarrow> schedule \<Rightarrow> schedule \<Rightarrow> schedule \<Rightarrow> rng
   \<Rightarrow> py_error + (schedule \<times> schedule) \<times> rng" where
  "crossover_loop [] parent1 parent2 child1 child2 g = Inr ((child1, child2), g)"
| "crossover_loop (course # cs) parent1 parent2 child1 child2 g =
     (case random_random g of
        (u, g1) \<Rightarrow>
          if u < 1 / 2 then
            (case dict_getitem parent1 course of Inl e \<Rightarrow> Inl e
             | Inr a1 \<Rightarrow>
                 (case dict_getitem parent2 course of Inl e \<Rightarrow> Inl e
                  | Inr a2 \<Rightarrow>
                      crossover_loop cs parent1 parent2
                        (AList.update course a1 child1) (AList.update course a2 child2) g1))
          else
            (case dict_getitem parent2 course of Inl e \<Rightarrow> Inl e
             | Inr a2 \<Rightarrow>
                 (case dict_getitem parent1 course of Inl e \<Rightarrow> Inl e
                  | Inr a1 \<Rightarrow>
                      crossover_loop cs parent1 parent2
                        (AList.update course a2 child1) (AList.update course a1 child2) g1)))"

definition crossover ::
  "problem \<Rightarrow> schedule \<Rightarrow> schedule \<Rightarrow> rng \<Rightarrow> py_error + (schedule \<times> schedule) \<times> rng" where
  "crossover P parent1 parent2 g = crossover_loop (courses P) parent1 parent2 [] [] g"

definition tournament_size :: nat where
  "tournament_size = 3"

fun select_population ::
  "ref list \<Rightarrow> int list \<Rightarrow> nat \<Rightarrow> rng \<Rightarrow> py_error + ref list \<times> rng" where
  "select_population pop fitness 0 g = Inr ([], g)"
| "select_population pop fitness (Suc n) g =
     (case random_sample (zip pop fitness) tournament_size g of Inl e \<Rightarrow> Inl e
      | Inr (competitors, g1) \<Rightarrow>
          (case max_key snd competitors of Inl e \<Rightarrow> Inl e
           | Inr winner \<Rightarrow>
               (case select_population pop fitness n g1 of Inl e \<Rightarrow> Inl e
                | Inr (selected, g2) \<Rightarrow> Inr (fst winner # selected, g2))))"

text \<open>
  The pairing loop of \<^verbatim>\<open>run\<close>: \<^verbatim>\<open>for i in range(0, population_size, 2)\<close>. The two
  children of a pair are fresh dicts, so they are allocated at the end of the store.
\<close>

fun pair_loop ::
  "problem \<Rightarrow> nat \<Rightarrow> ref list \<Rightarrow> nat list \<Rightarrow> heap \<Rightarrow> ref list \<Rightarrow> rng
   \<Rightarrow> py_error + heap \<times> ref list \<times> rng" where
  "pair_loop P n selected [] h next_generation g = Inr (h, next_generation, g)"
| "pair_loop P n selected (i # is) h next_generation g =
     (case list_getitem selected i of Inl e \<Rightarrow> Inl e
      | Inr parent1 \<Rightarrow>
          (case list_getitem selected ((i + 1) mod n) of Inl e \<Rightarrow> Inl e
           | Inr parent2 \<Rightarrow>
               (case crossover P (h ! parent1) (h ! parent2) g of Inl e \<Rightarrow> Inl e
                | Inr ((child1, child2), g1) \<Rightarrow>
                    pair_loop P n selected is (h @ [child1, child2])
                      (next_generation @ [length h, Suc (length h)]) g1)))"

text \<open>\<^verbatim>\<open>[self.mutate(child) for child in next_generation]\<close>: each child is changed in place.\<close>

fun mutate_all ::
  "problem \<Rightarrow> real \<Rightarrow> ref list \<Rightarrow> heap \<Rightarrow> rng \<Rightarrow> py_error + heap \<times> ref list \<times> rng" where
  "mutate_all P rate [] h g = Inr (h, [], g)"
| "mutate_all P rate (child # rest) h g =
     (case mutate P rate (h ! child) g of Inl e \<Rightarrow> Inl e
      | Inr (individual, g1) \<Rightarrow>
          (case mutate_all P rate rest (h[child := individual]) g1 of Inl e \<Rightarrow> Inl e
           | Inr (h', pop, g2) \<Rightarrow> Inr (h', child # pop, g2)))"

text \<open>
  The body of the generation loop of \<^verbatim>\<open>run\<close>, in two halves: \<open>ga_evaluate\<close> is lines
  31 to 39 (fitnesses, history, best tracking), \<open>ga_breed\<close> is lines 44 to 53 (selection,
  crossover, mutation). Between them stands the early stop of lines 40 to 42.
\<close>

definition ga_evaluate :: "problem \<Rightarrow> ga_state \<Rightarrow> py_error + int list \<times> ga_state" where
  "ga_evaluate P s =
     (let fitnesses = map (\<lambda>ind. ga_fitness P (ga_heap s ! ind)) (population s)
      in case py_max fitnesses of Inl e \<Rightarrow> Inl e
         | Inr current_best \<Rightarrow>
             (let s1 = s\<lparr>current_best_history := current_best_history s @ [current_best]\<rparr>
              in if (case ga_best_fitness s1 of None \<Rightarrow> True | Some b \<Rightarrow> current_best > b)
                 then (case list_index fitnesses current_best of Inl e \<Rightarrow> Inl e
                       | Inr i \<Rightarrow>
                           (case list_getitem (population s1) i of Inl e \<Rightarrow> Inl e
                            | Inr ind \<Rightarrow>
                                Inr (fitnesses, s1\<lparr>ga_best_fitness := Some current_best,
                                                   ga_best_individual := Some ind\<rparr>)))
                 else Inr (fitnesses, s1)))"

definition ga_breed ::
  "ga_config \<Rightarrow> problem \<Rightarrow> int list \<Rightarrow> ga_state \<Rightarrow> rng \<Rightarrow> py_error + ga_state \<times> rng" where
  "ga_breed cfg P fitnesses s g =
     (let n = nat (population_size cfg)
      in case select_population (population s) fitnesses n g of Inl e \<Rightarrow> Inl e
         | Inr (selected, g1) \<Rightarrow>
             (case pair_loop P n selected (range_step2 n) (ga_heap s) [] g1 of Inl e \<Rightarrow> Inl e
              | Inr (h1, next_generation, g2) \<Rightarrow>
                  (case mutate_all P (mutation_rate cfg) next_generation h1 g2 of
                     Inl e \<Rightarrow> Inl e
                   | Inr (h2, pop, g3) \<Rightarrow> Inr (s\<lparr>ga_heap := h2, population := pop\<rparr>, g3))))"

fun ga_loop ::
  "ga_config \<Rightarrow> problem \<Rightarrow> nat \<Rightarrow> ga_state \<Rightarrow> rng \<Rightarrow> py_error + ga_state \<times> rng" where
  \<comment> \<open>the first argument counts the generations still to run\<close>
  "ga_loop cfg P 0 s g = Inr (s, g)"
| "ga_loop cfg P (Suc k) s g =
     (case ga_evaluate P s of Inl e \<Rightarrow> Inl e
      | Inr (fitnesses, s1) \<Rightarrow>
          if ga_best_fitness s1 = Some 0 then Inr (s1, g)
          else (case ga_breed cfg P fitnesses s1 g of Inl e \<Rightarrow> Inl e
                | Inr (s2, g2) \<Rightarrow> ga_loop cfg P k s2 g2))"

definition ga_run ::
  "ga_config \<Rightarrow> problem \<Rightarrow> ga_state \<Rightarrow> rng \<Rightarrow> py_error + ref option \<times> ga_state \<times> rng" where
  \<comment> \<open>\<^verbatim>\<open>GeneticAlgorithm.run\<close>: the returned value is \<^verbatim>\<open>self.best_individual\<close>\<close>
  "ga_run cfg P s g =
     (case ga_loop cfg P (nat (generations cfg)) s g of Inl e \<Rightarrow> Inl e
      | Inr (s', g') \<Rightarrow> Inr (ga_best_individual s', s', g'))"

definition fitness_of_ref :: "problem \<Rightarrow> heap \<Rightarrow> ref option \<Rightarrow> py_error + int" where
  \<comment> \<open>\<^verbatim>\<open>self.fitness(x)\<close> for a variable \<open>x\<close> that holds \<^verbatim>\<open>None\<close> or a schedule:
      \<^verbatim>\<open>None.items()\<close> raises AttributeError\<close>
  "fitness_of_ref P h x =
     (case x of None \<Rightarrow> Inl AttributeError | Some a \<Rightarrow> Inr (ga_fitness P (h ! a)))"

section \<open>Annealing engine (simulated_annealing.py)\<close>

text \<open>
  The temperature is a Python float. The three float computations of \<^verbatim>\<open>run\<close> are
  parameters, over any carrier \<open>'f\<close>, and every theorem about the run holds for every
  choice of them; the doubles themselves are modelled further down, for the acceptance
  test. \<open>fl_mul\<close> is \<^verbatim>\<open>temperature * cooling_rate\<close>, \<open>fl_frozen\<close>
  is \<^verbatim>\<open>temperature <= 1e-10\<close>, \<open>fl_exp_div delta t\<close> is the value of
  \<^verbatim>\<open>math.exp(delta / t)\<close> that \<^verbatim>\<open>random.random()\<close> is compared with. They are taken as
  total functions.
\<close>

record 'f float_ops =
  fl_mul :: "'f \<Rightarrow> 'f \<Rightarrow> 'f"
  fl_frozen :: "'f \<Rightarrow> bool"
  fl_exp_div :: "int \<Rightarrow> 'f \<Rightarrow> real"

record 'f sa_config =
  initial_temperature :: 'f
  cooling_rate :: 'f
  max_iter :: int

text \<open>The attributes of a \<^verbatim>\<open>SimulatedAnnealing\<close> object, and the object store.\<close>

record sa_state =
  sa_heap :: heap
  sa_current :: ref
  sa_best_individual :: "ref option"
  sa_best_fitness :: "int option"
  fitness_history :: "int list"

text \<open>The local variables of \<^verbatim>\<open>run\<close>.\<close>

record 'f sa_locals =
  temperature :: 'f
  current :: ref
  current_fitness :: int

definition sa_init :: "problem \<Rightarrow> rng \<Rightarrow> py_error + sa_state \<times> rng" where
  \<comment> \<open>\<^verbatim>\<open>SimulatedAnnealing.__init__\<close>\<close>
  "sa_init P g =
     (case create_individual P g of Inl e \<Rightarrow> Inl e
      | Inr (ind, g1) \<Rightarrow>
          Inr (\<lparr>sa_heap = [ind], sa_current = 0, sa_best_individual = None,
                sa_best_fitness = None, fitness_history = []\<rparr>, g1))"

definition neighbor :: "problem \<Rightarrow> heap \<Rightarrow> ref \<Rightarrow> rng \<Rightarrow> py_error + heap \<times> ref \<times> rng" where
  \<comment> \<open>\<^verbatim>\<open>individual.copy()\<close> allocates; the assignment changes the copy in place\<close>
  "neighbor P h individual g =
     (let nb = length h; h1 = h @ [h ! individual]
      in case random_choice (courses P) g of Inl e \<Rightarrow> Inl e
         | Inr (course, g1) \<Rightarrow>
             (case random_choice (time_slots P) g1 of Inl e \<Rightarrow> Inl e
              | Inr (new_time, g2) \<Rightarrow>
                  (case random_choice (rooms P) g2 of Inl e \<Rightarrow> Inl e
                   | Inr (new_room, g3) \<Rightarrow>
                       Inr (h1[nb := AList.update course (new_time, new_room) (h1 ! nb)],
                            nb, g3))))"

text \<open>
  One pass through the body of the loop of \<^verbatim>\<open>run\<close>. The result \<open>None\<close> is the
  \<^verbatim>\<open>break\<close> at the freeze floor.
\<close>

definition sa_step ::
  "'f float_ops \<Rightarrow> 'f \<Rightarrow> problem \<Rightarrow> 'f sa_locals \<Rightarrow> sa_state \<Rightarrow> rng
   \<Rightarrow> py_error + ('f sa_locals \<times> sa_state \<times> rng) option" where
  "sa_step fl rate P l s g =
     (let temp = fl_mul fl (temperature l) rate
      in if fl_frozen fl temp then Inr None
         else case neighbor P (sa_heap s) (current l) g of Inl e \<Rightarrow> Inl e
              | Inr (h1, candidate, g1) \<Rightarrow>
                  (let candidate_fitness = sa_fitness P (h1 ! candidate);
                       delta = candidate_fitness - current_fitness l;
                       (accept, g2) =
                         (if delta > 0 then (True, g1)
                          else case random_random g1 of
                                 (u, g2) \<Rightarrow> (u < fl_exp_div fl delta temp, g2));
                       l1 = (if accept
                             then \<lparr>temperature = temp, current = candidate,
                                   current_fitness = candidate_fitness\<rparr>
                             else l\<lparr>temperature := temp\<rparr>);
                       s1 = s\<lparr>sa_heap := h1\<rparr>;
                       s2 = (if (case sa_best_fitness s1 of None \<Rightarrow> True
                                 | Some b \<Rightarrow> current_fitness l1 > b)
                             then s1\<lparr>sa_best_individual := Some (current l1),
                                     sa_best_fitness := Some (current_fitness l1)\<rparr>
                             else s1);
                       s3 = s2\<lparr>fitness_history := fitness_history s2 @ [current_fitness l1]\<rparr>
                   in Inr (Some (l1, s3, g2))))"

fun sa_loop ::
  "'f float_ops \<Rightarrow> 'f \<Rightarrow> problem \<Rightarrow> nat \<Rightarrow> 'f sa_locals \<Rightarrow> sa_state \<Rightarrow> rng
   \<Rightarrow> py_error + sa_state \<times> rng" where
  \<comment> \<open>the nat argument counts the iterations still to run\<close>
  "sa_loop fl rate P 0 l s g = Inr (s, g)"
| "sa_loop fl rate P (Suc k) l s g =
     (case sa_step fl rate P l s g of Inl e \<Rightarrow> Inl e
      | Inr None \<Rightarrow> Inr (s, g)
      | Inr (Some (l1, s1, g1)) \<Rightarrow> sa_loop fl rate P k l1 s1 g1)"

definition sa_run ::
  "'f float_ops \<Rightarrow> 'f sa_config \<Rightarrow> problem \<Rightarrow> sa_state \<Rightarrow> rng
   \<Rightarrow> py_error + ref option \<times> sa_state \<times> rng" where
  \<comment> \<open>\<^verbatim>\<open>SimulatedAnnealing.run\<close>: the returned value is \<^verbatim>\<open>self.best_individual\<close>\<close>
  "sa_run fl cfg P s g =
     (let cur = sa_current s;
          cur_fitness = sa_fitness P (sa_heap s ! cur);
          s0 = s\<lparr>sa_best_individual := Some cur, sa_best_fitness := Some cur_fitness\<rparr>;
          l0 = \<lparr>temperature = initial_temperature cfg, current = cur,
                current_fitness = cur_fitness\<rparr>
      in case sa_loop fl (cooling_rate cfg) P (nat (max_iter cfg)) l0 s0 g of Inl e \<Rightarrow> Inl e
         | Inr (s', g') \<Rightarrow> Inr (sa_best_individual s', s', g'))"

section \<open>Concrete instances\<close>

text \<open>A one-course instance, used to run the definitions on concrete inputs.\<close>

definition wit_problem :: problem where
  "wit_problem =
     \<lparr>course_details = [(''A'', \<lparr>department = Some ''D'', students = Some 30, instructor = Some ''X''\<rparr>)],
      courses = [''A''],
      room_capacities = [(''R1'', 40)],
      rooms = [''R1''],
      time_slots = [''T1''],
      course_conflicts = []\<rparr>"

section \<open>Auxiliary notions of the proofs\<close>

text \<open>The values that occur in the groups of a dict of lists.\<close>

definition members :: "('k, 'v list) dict \<Rightarrow> 'v set" where
  "members dc = (\<Union>cs \<in> snd ` set dc. set cs)"

text \<open>What holds of the locals and attributes of the annealing run at every loop head.\<close>

definition sa_inv :: "problem \<Rightarrow> 'f sa_locals \<Rightarrow> sa_state \<Rightarrow> bool" where
  "sa_inv P l s \<longleftrightarrow>
     current l < length (sa_heap s) \<and>
     current_fitness l = sa_fitness P (sa_heap s ! current l) \<and>
     (\<exists>b. sa_best_individual s = Some b \<and> b < length (sa_heap s) \<and>
          sa_best_fitness s = Some (sa_fitness P (sa_heap s ! b)))"

text \<open>
  Exact real arithmetic in place of IEEE doubles: one admissible choice of the float
  operations, used only to run the annealing model on concrete inputs.
\<close>

definition ideal_float_ops :: "real float_ops" where
  "ideal_float_ops =
     \<lparr>fl_mul = (\<lambda>a b. a * b), fl_frozen = (\<lambda>t. t \<le> 1 / 10 ^ 10),
      fl_exp_div = (\<lambda>delta t. exp (real_of_int delta / t))\<rparr>"

definition wit_sa_config :: "real sa_config" where
  "wit_sa_config = \<lparr>initial_temperature = 1000, cooling_rate = 995 / 1000, max_iter = 1\<rparr>"

definition wit_schedule :: schedule where
  "wit_schedule = [(''A'', (''T1'', ''R1''))]"

definition wit_sa_state0 :: sa_state where
  "wit_sa_state0 =
     \<lparr>sa_heap = [wit_schedule], sa_current = 0, sa_best_individual = None,
      sa_best_fitness = None, fitness_history = []\<rparr>"

definition wit_sa_state1 :: sa_state where
  "wit_sa_state1 =
     \<lparr>sa_heap = [wit_schedule, wit_schedule], sa_current = 0, sa_best_individual = Some 0,
      sa_best_fitness = Some 0, fitness_history = [0]\<rparr>"

text \<open>
  What holds of a \<^verbatim>\<open>GeneticAlgorithm\<close> object at every loop head of \<^verbatim>\<open>run\<close>: every dict in
  the store assigns all courses, the population refers to allocated dicts, and the
  recorded best fitness is the fitness of the recorded best individual.
\<close>

definition keys_ok :: "problem \<Rightarrow> heap \<Rightarrow> bool" where
  "keys_ok P h \<longleftrightarrow> (\<forall>ind \<in> set h. set (courses P) \<subseteq> fst ` set ind)"

definition refs_ok :: "heap \<Rightarrow> ref list \<Rightarrow> bool" where
  "refs_ok h rs \<longleftrightarrow> (\<forall>r \<in> set rs. r < length h)"

definition best_ok :: "problem \<Rightarrow> ga_state \<Rightarrow> bool" where
  "best_ok P s \<longleftrightarrow>
     (case ga_best_individual s of
        None \<Rightarrow> ga_best_fitness s = None
      | Some b \<Rightarrow> b < length (ga_heap s) \<and>
                  ga_best_fitness s = Some (ga_fitness P (ga_heap s ! b)))"

definition ga_wf :: "problem \<Rightarrow> ga_state \<Rightarrow> bool" where
  "ga_wf P s \<longleftrightarrow>
     refs_ok (ga_heap s) (population s) \<and> keys_ok P (ga_heap s) \<and> best_ok P s"

text \<open>
  Variants of the one-course instance: a room too small for the course (no schedule is
  feasible), no course at all, no room at all.
\<close>

definition wit_tight :: problem where
  "wit_tight = wit_problem\<lparr>room_capacities := [(''R1'', 20)]\<rparr>"



definition wit_ga_config :: "int \<Rightarrow> int \<Rightarrow> ga_config" where
  "wit_ga_config n gens = \<lparr>population_size = n, mutation_rate = 0, generations = gens\<rparr>"

definition wit_ga_state :: "nat \<Rightarrow> ga_state" where
  \<comment> \<open>a freshly constructed engine whose \<open>n\<close> individuals are all \<open>wit_schedule\<close>\<close>
  "wit_ga_state n =
     \<lparr>ga_heap = replicate n wit_schedule, population = [0..<n], ga_best_individual = None,
      ga_best_fitness = None, current_best_history = []\<rparr>"

definition wit_ga_evaluated :: "nat \<Rightarrow> int \<Rightarrow> ga_state" where
  \<comment> \<open>the same engine after the evaluation step of its first generation\<close>
  "wit_ga_evaluated n f =
     \<lparr>ga_heap = replicate n wit_schedule, population = [0..<n], ga_best_individual = Some 0,
      ga_best_fitness = Some f, current_best_history = [f]\<rparr>"

text \<open>The local variables of an annealing run whose current schedule has fitness 0.\<close>

definition wit_sa_locals :: "real \<Rightarrow> ref \<Rightarrow> real sa_locals" where
  "wit_sa_locals temp cur = \<lparr>temperature = temp, current = cur, current_fitness = 0\<rparr>"

section \<open>Double-precision floats of the acceptance test\<close>

text \<open>
  The finite values of a Python float are reals, and an operation returns the nearest
  double of its exact result, ties to the even neighbour: \<open>ulp_of x\<close> is the spacing of
  the doubles around \<open>x\<close> (52 fraction bits, least exponent -1022, so the subnormals are
  spaced by \<open>2\<^sup>-\<^sup>1\<^sup>0\<^sup>7\<^sup>4\<close>). A result of magnitude \<open>double_overflow\<close> or more lies
  beyond the largest double. Infinities and NaN are not values of the model: the
  temperature of the acceptance test is a finite double.
\<close>

definition round_half_even :: "real \<Rightarrow> int" where
  "round_half_even y =
     (let f = \<lfloor>y\<rfloor>; d = y - of_int f
      in if d < 1 / 2 then f else if 1 / 2 < d then f + 1 else if even f then f else f + 1)"











section \<open>Properties of the constraint model\<close>

lemma foldl_nonneg:
  fixes a :: int
  assumes "\<And>b x. 0 \<le> b \<Longrightarrow> 0 \<le> f b x" and "0 \<le> a"
  shows "0 \<le> foldl f a xs"
  using assms(2) by (induction xs arbitrary: a) (simp_all add: assms(1))

lemma count_extra_nonneg: "0 \<le> cc \<Longrightarrow> 0 \<le> count_extra ts cc"
  unfolding count_extra_def by (rule foldl_nonneg) (auto simp: Let_def)

lemma ga_constraint1_nonneg: "0 \<le> ga_constraint1 ind"
proof -
  have "0 \<le> foldl (\<lambda>cc course_list.
      if length course_list > 1 then cc + (int (length course_list) - 1) else cc) (0::int) gs" for gs :: "course list list"
    by (rule foldl_nonneg) auto
  then show ?thesis
    by (simp add: ga_constraint1_def ga_PENALTIES_def Let_def)
qed

lemma ga_constraint2_nonneg: "0 \<le> ga_constraint2 ind cd rc"
  unfolding ga_constraint2_def
  by (rule foldl_nonneg) (auto simp: Let_def ga_PENALTIES_def split: prod.splits)

lemma ga_constraint3_nonneg: "0 \<le> ga_constraint3 ind cd"
proof -
  have "0 \<le> foldl (\<lambda>cc (dept, courses_in_dept).
      count_extra (times_assigned_of ind courses_in_dept) cc) 0 gs" for gs :: "(string \<times> course list) list"
    by (rule foldl_nonneg) (auto simp: count_extra_nonneg)
  then show ?thesis
    by (simp add: ga_constraint3_def ga_PENALTIES_def Let_def)
qed

lemma ga_constraint4_nonneg: "0 \<le> ga_constraint4 ind cd"
proof -
  have "0 \<le> foldl (\<lambda>cc (teacher, courses_taught).
      count_extra (times_assigned_of ind courses_taught) cc) 0 gs" for gs :: "(string \<times> course list) list"
    by (rule foldl_nonneg) (auto simp: count_extra_nonneg)
  then show ?thesis
    by (simp add: ga_constraint4_def ga_PENALTIES_def Let_def)
qed

lemma ga_constraint5_nonneg: "0 \<le> ga_constraint5 ind cf"
proof -
  have "0 \<le> foldl (\<lambda>cc grp. count_extra (times_assigned_of ind grp) cc) 0 cf"
    by (rule foldl_nonneg) (auto simp: count_extra_nonneg)
  then show ?thesis
    by (simp add: ga_constraint5_def ga_PENALTIES_def Let_def)
qed

lemma sa_PENALTIES_eq: "sa_PENALTIES = ga_PENALTIES"
  by (simp add: sa_PENALTIES_def ga_PENALTIES_def)

lemma sa_constraint1_eq: "sa_constraint1 P ind = ga_constraint1 ind"
  unfolding sa_constraint1_def ga_constraint1_def sa_PENALTIES_eq by (rule refl)

lemma sa_constraint2_eq:
  "sa_constraint2 P ind = ga_constraint2 ind (course_details P) (room_capacities P)"
  unfolding sa_constraint2_def ga_constraint2_def sa_PENALTIES_eq by (rule refl)

lemma sa_constraint3_eq: "sa_constraint3 P ind = ga_constraint3 ind (course_details P)"
  unfolding sa_constraint3_def ga_constraint3_def sa_PENALTIES_eq by (rule refl)

lemma sa_constraint4_eq: "sa_constraint4 P ind = ga_constraint4 ind (course_details P)"
  unfolding sa_constraint4_def ga_constraint4_def sa_PENALTIES_eq by (rule refl)

lemma sa_constraint5_eq: "sa_constraint5 P ind = ga_constraint5 ind (course_conflicts P)"
  unfolding sa_constraint5_def ga_constraint5_def sa_PENALTIES_eq by (rule refl)

lemma sa_fitness_eq: "sa_fitness P ind = ga_fitness P ind"
  by (simp add: sa_fitness_def ga_fitness_def sa_constraint1_eq sa_constraint2_eq
      sa_constraint3_eq sa_constraint4_eq sa_constraint5_eq)

text \<open>
  C1. For every schedule over the same problem instance the fitness function of the
  genetic engine and the fitness function of the annealing engine return the same
  integer: both penalty tables are \<open>[1000, 1000, 500, 1000, 1000]\<close>, each of the five
  penalty terms of one engine equals the corresponding term of the other, and each
  fitness is the negated sum of its five terms.
\<close>

theorem C1_fitness_engines_agree:
  "ga_fitness P individual = sa_fitness P individual
   \<and> ga_PENALTIES = [1000, 1000, 500, 1000, 1000]
   \<and> sa_PENALTIES = [1000, 1000, 500, 1000, 1000]
   \<and> ga_constraint1 individual = sa_constraint1 P individual
   \<and> ga_constraint2 individual (course_details P) (room_capacities P) = sa_constraint2 P individual
   \<and> ga_constraint3 individual (course_details P) = sa_constraint3 P individual
   \<and> ga_constraint4 individual (course_details P) = sa_constraint4 P individual
   \<and> ga_constraint5 individual (course_conflicts P) = sa_constraint5 P individual
   \<and> ga_fitness P individual =
       - (ga_constraint1 individual
          + ga_constraint2 individual (course_details P) (room_capacities P)
          + ga_constraint3 individual (course_details P)
          + ga_constraint4 individual (course_details P)
          + ga_constraint5 individual (course_conflicts P))
   \<and> sa_fitness P individual =
       - (sa_constraint1 P individual + sa_constraint2 P individual + sa_constraint3 P individual
          + sa_constraint4 P individual + sa_constraint5 P individual)"
  by (simp add: sa_fitness_eq sa_constraint1_eq sa_constraint2_eq sa_constraint3_eq
      sa_constraint4_eq sa_constraint5_eq ga_PENALTIES_def sa_PENALTIES_def ga_fitness_def)

text \<open>
  C2. For every schedule and every problem instance the fitness is a non-positive
  integer, and it is zero exactly when each of the five constraint functions returns
  zero penalty. Stated for the fitness of either engine.
\<close>

theorem C2_fitness_nonpositive:
  "ga_fitness P individual \<le> 0
   \<and> (ga_fitness P individual = 0 \<longleftrightarrow>
        ga_constraint1 individual = 0
        \<and> ga_constraint2 individual (course_details P) (room_capacities P) = 0
        \<and> ga_constraint3 individual (course_details P) = 0
        \<and> ga_constraint4 individual (course_details P) = 0
        \<and> ga_constraint5 individual (course_conflicts P) = 0)
   \<and> sa_fitness P individual \<le> 0
   \<and> (sa_fitness P individual = 0 \<longleftrightarrow>
        sa_constraint1 P individual = 0 \<and> sa_constraint2 P individual = 0
        \<and> sa_constraint3 P individual = 0 \<and> sa_constraint4 P individual = 0
        \<and> sa_constraint5 P individual = 0)"
proof -
  note nn = ga_constraint1_nonneg [of individual]
    ga_constraint2_nonneg [of individual "course_details P" "room_capacities P"]
    ga_constraint3_nonneg [of individual "course_details P"]
    ga_constraint4_nonneg [of individual "course_details P"]
    ga_constraint5_nonneg [of individual "course_conflicts P"]
  have ga: "ga_fitness P individual =
       - (ga_constraint1 individual
          + ga_constraint2 individual (course_details P) (room_capacities P)
          + ga_constraint3 individual (course_details P)
          + ga_constraint4 individual (course_details P)
          + ga_constraint5 individual (course_conflicts P))"
    by (simp add: ga_fitness_def)
  show ?thesis
    unfolding sa_fitness_eq sa_constraint1_eq sa_constraint2_eq sa_constraint3_eq
      sa_constraint4_eq sa_constraint5_eq ga
    using nn by linarith
qed

section \<open>Crossover\<close>

lemma dict_getitem_Inr: "dict_getitem d k = Inr v \<longleftrightarrow> map_of d k = Some v"
  by (simp add: dict_getitem_def split: option.splits)

lemma dict_getitem_Some: "map_of d k = Some v \<Longrightarrow> dict_getitem d k = Inr v"
  by (simp add: dict_getitem_def)

lemma map_of_update_same: "map_of (AList.update k v d) k = Some v"
  by (simp add: update_conv')

lemma map_of_update_other: "k' \<noteq> k \<Longrightarrow> map_of (AList.update k v d) k' = map_of d k'"
  by (simp add: update_conv')

lemma crossover_loop_ok:
  assumes "\<forall>c \<in> set cs. map_of p1 c \<noteq> None \<and> map_of p2 c \<noteq> None"
  shows "\<exists>r. crossover_loop cs p1 p2 c1 c2 g = Inr r"
  using assms
proof (induction cs arbitrary: c1 c2 g)
  case Nil
  then show ?case by simp
next
  case (Cons c cs)
  from Cons.prems obtain a1 a2 where a: "map_of p1 c = Some a1" "map_of p2 c = Some a2"
    by auto
  from Cons.prems have rest: "\<forall>c \<in> set cs. map_of p1 c \<noteq> None \<and> map_of p2 c \<noteq> None"
    by simp
  show ?case
    using Cons.IH [OF rest] a
    by (simp add: dict_getitem_def split: prod.splits)
qed

lemma crossover_loop_inv:
  assumes "crossover_loop cs p1 p2 c1 c2 g = Inr ((c1', c2'), g')"
  shows "(c \<in> set cs \<longrightarrow>
            (\<exists>a1 a2. map_of p1 c = Some a1 \<and> map_of p2 c = Some a2 \<and>
               ((map_of c1' c = Some a1 \<and> map_of c2' c = Some a2) \<or>
                (map_of c1' c = Some a2 \<and> map_of c2' c = Some a1)))) \<and>
         (c \<notin> set cs \<longrightarrow> map_of c1' c = map_of c1 c \<and> map_of c2' c = map_of c2 c)"
  using assms
proof (induction cs arbitrary: c1 c2 g)
  case Nil
  then show ?case by simp
next
  case (Cons x cs)
  obtain u g1 where u: "random_random g = (u, g1)" by (cases "random_random g")
  from Cons.prems u obtain a1 a2 where a: "map_of p1 x = Some a1" "map_of p2 x = Some a2"
    by (auto simp: dict_getitem_def split: if_splits option.splits)
  show ?case
  proof (cases "u < 1 / 2")
    case True
    with Cons.prems u a have
      "crossover_loop cs p1 p2 (AList.update x a1 c1) (AList.update x a2 c2) g1 = Inr ((c1', c2'), g')"
      by (simp add: dict_getitem_def)
    from Cons.IH [OF this] a show ?thesis
      by (cases "c = x") (auto simp: map_of_update_same map_of_update_other)
  next
    case False
    with Cons.prems u a have
      "crossover_loop cs p1 p2 (AList.update x a2 c1) (AList.update x a1 c2) g1 = Inr ((c1', c2'), g')"
      by (simp add: dict_getitem_def)
    from Cons.IH [OF this] a show ?thesis
      by (cases "c = x") (auto simp: map_of_update_same map_of_update_other)
  qed
qed

lemma crossover_loop_keys:
  assumes "crossover_loop cs p1 p2 c1 c2 g = Inr ((c1', c2'), g')"
  shows "fst ` set c1' = fst ` set c1 \<union> set cs \<and> fst ` set c2' = fst ` set c2 \<union> set cs"
  using assms
proof (induction cs arbitrary: c1 c2 g)
  case Nil
  then show ?case by simp
next
  case (Cons x cs)
  obtain u g1 where u: "random_random g = (u, g1)" by (cases "random_random g")
  from Cons.prems u obtain a1 a2 where a: "map_of p1 x = Some a1" "map_of p2 x = Some a2"
    by (auto simp: dict_getitem_def split: if_splits option.splits)
  show ?case
  proof (cases "u < 1 / 2")
    case True
    with Cons.prems u a have
      "crossover_loop cs p1 p2 (AList.update x a1 c1) (AList.update x a2 c2) g1 = Inr ((c1', c2'), g')"
      by (simp add: dict_getitem_def)
    from Cons.IH [OF this] show ?thesis
      by (auto simp: dom_update)
  next
    case False
    with Cons.prems u a have
      "crossover_loop cs p1 p2 (AList.update x a2 c1) (AList.update x a1 c2) g1 = Inr ((c1', c2'), g')"
      by (simp add: dict_getitem_def)
    from Cons.IH [OF this] show ?thesis
      by (auto simp: dom_update)
  qed
qed

text \<open>
  C9. For every two parent schedules (each assigns every course of the instance), uniform
  crossover returns two children over exactly the courses of the instance; for every
  course each child holds the whole (time, room) pair of one of the two parents, never
  the time of one with the room of the other, and the two children are complementary:
  the multiset of the two children's pairs for a course is the multiset of the two
  parents' pairs.
\<close>

theorem C9_crossover_closure:
  assumes "set (courses P) \<subseteq> fst ` set parent1" and "set (courses P) \<subseteq> fst ` set parent2"
  shows "\<exists>child1 child2 g'.
           crossover P parent1 parent2 g = Inr ((child1, child2), g') \<and>
           fst ` set child1 = set (courses P) \<and> fst ` set child2 = set (courses P) \<and>
           (\<forall>course \<in> set (courses P).
              ((map_of child1 course = map_of parent1 course \<and>
                map_of child2 course = map_of parent2 course) \<or>
               (map_of child1 course = map_of parent2 course \<and>
                map_of child2 course = map_of parent1 course)) \<and>
              map_of child1 course \<noteq> None \<and> map_of child2 course \<noteq> None \<and>
              {#map_of child1 course, map_of child2 course#} =
              {#map_of parent1 course, map_of parent2 course#})"
proof -
  have dom: "\<forall>c \<in> set (courses P). map_of parent1 c \<noteq> None \<and> map_of parent2 c \<noteq> None"
    using assms by (auto simp: map_of_eq_None_iff)
  from crossover_loop_ok [OF dom] obtain child1 child2 g' where
    r: "crossover_loop (courses P) parent1 parent2 [] [] g = Inr ((child1, child2), g')"
    by (metis surj_pair)
  have keys: "fst ` set child1 = set (courses P) \<and> fst ` set child2 = set (courses P)"
    using crossover_loop_keys [OF r] by simp
  have pt: "((map_of child1 c = map_of parent1 c \<and> map_of child2 c = map_of parent2 c) \<or>
             (map_of child1 c = map_of parent2 c \<and> map_of child2 c = map_of parent1 c)) \<and>
            map_of child1 c \<noteq> None \<and> map_of child2 c \<noteq> None \<and>
            {#map_of child1 c, map_of child2 c#} = {#map_of parent1 c, map_of parent2 c#}"
    if "c \<in> set (courses P)" for c
    using crossover_loop_inv [OF r, of c] that by auto
  show ?thesis
    using r keys pt by (auto simp: crossover_def)
qed

theorem C9_crossover_closure_witness:
  "set (courses wit_problem) \<subseteq> fst ` set [(''A'', (''T1'', ''R1''))] \<and>
   set (courses wit_problem) \<subseteq> fst ` set [(''A'', (''T2'', ''R2''))] \<and>
   (\<exists>child1 child2 g'.
      crossover wit_problem [(''A'', (''T1'', ''R1''))] [(''A'', (''T2'', ''R2''))] (\<lambda>i. 0)
        = Inr ((child1, child2), g') \<and>
      fst ` set child1 = set (courses wit_problem) \<and>
      fst ` set child2 = set (courses wit_problem) \<and>
      (\<forall>course \<in> set (courses wit_problem).
         ((map_of child1 course = map_of [(''A'', (''T1'', ''R1''))] course \<and>
           map_of child2 course = map_of [(''A'', (''T2'', ''R2''))] course) \<or>
          (map_of child1 course = map_of [(''A'', (''T2'', ''R2''))] course \<and>
           map_of child2 course = map_of [(''A'', (''T1'', ''R1''))] course)) \<and>
         map_of child1 course \<noteq> None \<and> map_of child2 course \<noteq> None \<and>
         {#map_of child1 course, map_of child2 course#} =
         {#map_of [(''A'', (''T1'', ''R1''))] course, map_of [(''A'', (''T2'', ''R2''))] course#}))"
proof -
  have h1: "set (courses wit_problem) \<subseteq> fst ` set [(''A'', (''T1'', ''R1''))]"
    by (simp add: wit_problem_def)
  have h2: "set (courses wit_problem) \<subseteq> fst ` set [(''A'', (''T2'', ''R2''))]"
    by (simp add: wit_problem_def)
  show ?thesis
    using h1 h2 C9_crossover_closure [OF h1 h2, of "\<lambda>i. 0"]
    by (intro conjI) assumption+
qed

section \<open>Missing lookups\<close>

lemma foldl_shift:
  fixes a :: int
  assumes "\<And>b x. f b x = b + f 0 x"
  shows "foldl f a xs = a + foldl f 0 xs"
proof (induction xs arbitrary: a)
  case Nil
  show ?case by simp
next
  case (Cons x xs)
  have "foldl f a (x # xs) = foldl f (f a x) xs" by simp
  also have "\<dots> = f a x + foldl f 0 xs" by (rule Cons.IH)
  also have "\<dots> = a + (f 0 x + foldl f 0 xs)" using assms [of a x] by simp
  also have "f 0 x + foldl f 0 xs = foldl f (f 0 x) xs" by (rule Cons.IH [symmetric])
  finally show ?case by simp
qed

lemma ga_constraint2_append:
  "ga_constraint2 (xs @ ys) cd rc = ga_constraint2 xs cd rc + ga_constraint2 ys cd rc"
  unfolding ga_constraint2_def foldl_append
  by (rule foldl_shift) (simp add: Let_def split: prod.splits)

lemma ga_constraint2_single:
  "ga_constraint2 [(c, (t, r))] cd rc =
     (let enrollment = (case students (dict_get cd c no_details) of None \<Rightarrow> 0 | Some n \<Rightarrow> n);
          room_cap = dict_get rc r 0
      in if room_cap < enrollment then (enrollment - room_cap) * 1000 else 0)"
  by (simp add: ga_constraint2_def ga_PENALTIES_def Let_def)

lemma ga_constraint2_remove:
  "ga_constraint2 (xs @ (c, (t, r)) # ys) cd rc =
     ga_constraint2 (xs @ ys) cd rc + ga_constraint2 [(c, (t, r))] cd rc"
proof -
  have "ga_constraint2 (xs @ [(c, (t, r))] @ ys) cd rc =
        ga_constraint2 xs cd rc + (ga_constraint2 [(c, (t, r))] cd rc + ga_constraint2 ys cd rc)"
    by (simp only: ga_constraint2_append)
  moreover have "ga_constraint2 (xs @ ys) cd rc = ga_constraint2 xs cd rc + ga_constraint2 ys cd rc"
    by (rule ga_constraint2_append)
  ultimately show ?thesis by simp
qed

lemma set_update_subset: "set (AList.update k v al) \<subseteq> insert (k, v) (set al)"
  by (induction al) auto

lemma dict_get_members: "set (dict_get dc k []) \<subseteq> members dc"
proof (cases "map_of dc k")
  case None
  then show ?thesis by (simp add: dict_get_def)
next
  case (Some l)
  then have "(k, l) \<in> set dc" by (rule map_of_SomeD)
  then have "l \<in> snd ` set dc" by force
  then show ?thesis using Some by (auto simp: dict_get_def members_def)
qed

lemma members_setdefault_append: "members (setdefault_append dc k v) \<subseteq> insert v (members dc)"
proof
  fix c
  assume "c \<in> members (setdefault_append dc k v)"
  then obtain k' cs where m: "(k', cs) \<in> set (AList.update k (dict_get dc k [] @ [v]) dc)"
    and c: "c \<in> set cs"
    by (auto simp: members_def setdefault_append_def)
  from m set_update_subset [of k "dict_get dc k [] @ [v]" dc]
  have "cs = dict_get dc k [] @ [v] \<or> (k', cs) \<in> set dc" by auto
  then show "c \<in> insert v (members dc)"
  proof
    assume "cs = dict_get dc k [] @ [v]"
    with c dict_get_members [of dc k] show ?thesis by auto
  next
    assume "(k', cs) \<in> set dc"
    then have "cs \<in> snd ` set dc" by force
    with c show ?thesis by (auto simp: members_def)
  qed
qed

lemma members_groups:
  "members (foldl (\<lambda>dc (course, d).
        let x = sel d in if truthy x then setdefault_append dc (the x) course else dc) dc0 cd)
   \<subseteq> members dc0 \<union> {c. \<exists>d. (c, d) \<in> set cd \<and> truthy (sel d)}"
proof (induction cd arbitrary: dc0)
  case Nil
  show ?case by simp
next
  case (Cons e cd)
  obtain c d where e: "e = (c, d)" by (cases e)
  show ?case
    using Cons.IH [of "if truthy (sel d) then setdefault_append dc0 (the (sel d)) c else dc0"]
      members_setdefault_append [of dc0 "the (sel d)" c]
    by (auto simp: e Let_def split: if_splits)
qed

lemma times_assigned_of_cong:
  "(\<And>c. c \<in> set grp \<Longrightarrow> map_of ind c = map_of ind' c)
   \<Longrightarrow> times_assigned_of ind grp = times_assigned_of ind' grp"
  unfolding times_assigned_of_def
  by (induction grp) (auto simp: List.map_filter_simps split: option.splits)

lemma map_of_remove_other:
  "c' \<noteq> c \<Longrightarrow> map_of (xs @ (c, v) # ys) c' = map_of (xs @ ys) c'"
  by (induction xs) auto

lemma group_conflicts_remove:
  assumes "\<And>d. (c, d) \<in> set cd \<Longrightarrow> \<not> truthy (sel d)"
  shows "foldl (\<lambda>cc (k, grp). count_extra (times_assigned_of (xs @ (c, v) # ys) grp) cc) 0
           (foldl (\<lambda>dc (course, d).
              let x = sel d in if truthy x then setdefault_append dc (the x) course else dc) [] cd)
         = foldl (\<lambda>cc (k, grp). count_extra (times_assigned_of (xs @ ys) grp) cc) 0
           (foldl (\<lambda>dc (course, d).
              let x = sel d in if truthy x then setdefault_append dc (the x) course else dc) [] cd)"
proof (rule foldl_cong [OF refl refl])
  fix a and e :: "string \<times> course list"
  assume e: "e \<in> set (foldl (\<lambda>dc (course, d).
              let x = sel d in if truthy x then setdefault_append dc (the x) course else dc) [] cd)"
  obtain k grp where kg: "e = (k, grp)" by (cases e)
  have "set grp \<subseteq> members (foldl (\<lambda>dc (course, d).
              let x = sel d in if truthy x then setdefault_append dc (the x) course else dc) [] cd)"
    using e by (force simp: kg members_def)
  with members_groups [of sel "[]" cd] have "set grp \<subseteq> {c. \<exists>d. (c, d) \<in> set cd \<and> truthy (sel d)}"
    by (auto simp: members_def)
  with assms have "c \<notin> set grp" by auto
  then have "times_assigned_of (xs @ (c, v) # ys) grp = times_assigned_of (xs @ ys) grp"
    by (intro times_assigned_of_cong map_of_remove_other) auto
  then show "(case e of (k, grp) \<Rightarrow> count_extra (times_assigned_of (xs @ (c, v) # ys) grp) a) =
             (case e of (k, grp) \<Rightarrow> count_extra (times_assigned_of (xs @ ys) grp) a)"
    by (simp add: kg)
qed

lemma ga_constraint3_remove:
  assumes "\<And>d. (c, d) \<in> set cd \<Longrightarrow> \<not> truthy (department d)"
  shows "ga_constraint3 (xs @ (c, v) # ys) cd = ga_constraint3 (xs @ ys) cd"
  unfolding ga_constraint3_def Let_def
  using group_conflicts_remove [of c cd department xs v ys, OF assms]
  by (simp add: Let_def)

lemma ga_constraint4_remove:
  assumes "\<And>d. (c, d) \<in> set cd \<Longrightarrow> \<not> truthy (instructor d)"
  shows "ga_constraint4 (xs @ (c, v) # ys) cd = ga_constraint4 (xs @ ys) cd"
  unfolding ga_constraint4_def Let_def
  using group_conflicts_remove [of c cd instructor xs v ys, OF assms]
  by (simp add: Let_def)

lemma absent_course_no_entry: "map_of cd c = None \<Longrightarrow> (c, d) \<notin> set cd"
  by (metis map_of_eq_None_iff fst_conv image_eqI)


lemma absent_course_enrollment:
  "map_of cd c = None \<Longrightarrow>
   (case students (dict_get cd c no_details) of None \<Rightarrow> 0 | Some n \<Rightarrow> n) = (0::int)"
  by (simp add: dict_get_def no_details_def)

text \<open>
  C3 (as amended). Take any schedule and one of its entries, course \<open>c\<close> at time \<open>t\<close> in
  room \<open>r\<close>, and compare the penalties with and without that entry.
  A course absent from \<open>course_details\<close> is scored as enrollment 0 with no department
  and no instructor: constraints 3 and 4 do not change, and the capacity penalty changes
  by 1000 times the amount by which the capacity of its room lies below 0 (nothing when
  that capacity is not negative). A room absent from \<open>room_capacities\<close> is scored as
  capacity 0: the entry adds 1000 times the course's enrollment when that is positive,
  and nothing otherwise. Stated for the constraint functions of both engines.
\<close>

theorem C3_missing_lookups:
  "(map_of (course_details P) c = None \<longrightarrow>
      ga_constraint3 (xs @ (c, (t, r)) # ys) (course_details P)
        = ga_constraint3 (xs @ ys) (course_details P)
      \<and> ga_constraint4 (xs @ (c, (t, r)) # ys) (course_details P)
        = ga_constraint4 (xs @ ys) (course_details P)
      \<and> ga_constraint2 (xs @ (c, (t, r)) # ys) (course_details P) (room_capacities P)
        = ga_constraint2 (xs @ ys) (course_details P) (room_capacities P)
          + (if dict_get (room_capacities P) r 0 < 0
             then (0 - dict_get (room_capacities P) r 0) * 1000 else 0)
      \<and> sa_constraint3 P (xs @ (c, (t, r)) # ys) = sa_constraint3 P (xs @ ys)
      \<and> sa_constraint4 P (xs @ (c, (t, r)) # ys) = sa_constraint4 P (xs @ ys)
      \<and> sa_constraint2 P (xs @ (c, (t, r)) # ys)
        = sa_constraint2 P (xs @ ys)
          + (if dict_get (room_capacities P) r 0 < 0
             then (0 - dict_get (room_capacities P) r 0) * 1000 else 0))
   \<and> (map_of (room_capacities P) r = None \<longrightarrow>
      ga_constraint2 (xs @ (c, (t, r)) # ys) (course_details P) (room_capacities P)
        = ga_constraint2 (xs @ ys) (course_details P) (room_capacities P)
          + (case students (dict_get (course_details P) c no_details) of
               None \<Rightarrow> 0 | Some n \<Rightarrow> if 0 < n then n * 1000 else 0)
      \<and> sa_constraint2 P (xs @ (c, (t, r)) # ys)
        = sa_constraint2 P (xs @ ys)
          + (case students (dict_get (course_details P) c no_details) of
               None \<Rightarrow> 0 | Some n \<Rightarrow> if 0 < n then n * 1000 else 0))"
proof (intro conjI impI)
  assume a: "map_of (course_details P) c = None"
  then have no: "\<And>d. (c, d) \<notin> set (course_details P)"
    by (rule absent_course_no_entry)
  show g3: "ga_constraint3 (xs @ (c, (t, r)) # ys) (course_details P)
        = ga_constraint3 (xs @ ys) (course_details P)"
    by (rule ga_constraint3_remove) (simp add: no)
  show g4: "ga_constraint4 (xs @ (c, (t, r)) # ys) (course_details P)
        = ga_constraint4 (xs @ ys) (course_details P)"
    by (rule ga_constraint4_remove) (simp add: no)
  show g2: "ga_constraint2 (xs @ (c, (t, r)) # ys) (course_details P) (room_capacities P)
        = ga_constraint2 (xs @ ys) (course_details P) (room_capacities P)
          + (if dict_get (room_capacities P) r 0 < 0
             then (0 - dict_get (room_capacities P) r 0) * 1000 else 0)"
    unfolding ga_constraint2_remove [of xs c t r ys] ga_constraint2_single
    by (simp add: absent_course_enrollment [OF a] Let_def)
  show "sa_constraint3 P (xs @ (c, (t, r)) # ys) = sa_constraint3 P (xs @ ys)"
    unfolding sa_constraint3_eq by (rule g3)
  show "sa_constraint4 P (xs @ (c, (t, r)) # ys) = sa_constraint4 P (xs @ ys)"
    unfolding sa_constraint4_eq by (rule g4)
  show "sa_constraint2 P (xs @ (c, (t, r)) # ys)
        = sa_constraint2 P (xs @ ys)
          + (if dict_get (room_capacities P) r 0 < 0
             then (0 - dict_get (room_capacities P) r 0) * 1000 else 0)"
    unfolding sa_constraint2_eq by (rule g2)
next
  assume a: "map_of (room_capacities P) r = None"
  then have cap: "dict_get (room_capacities P) r 0 = 0"
    by (simp add: dict_get_def)
  show g2: "ga_constraint2 (xs @ (c, (t, r)) # ys) (course_details P) (room_capacities P)
        = ga_constraint2 (xs @ ys) (course_details P) (room_capacities P)
          + (case students (dict_get (course_details P) c no_details) of
               None \<Rightarrow> 0 | Some n \<Rightarrow> if 0 < n then n * 1000 else 0)"
    unfolding ga_constraint2_remove [of xs c t r ys] ga_constraint2_single
    by (simp add: cap Let_def split: option.splits)
  show "sa_constraint2 P (xs @ (c, (t, r)) # ys)
        = sa_constraint2 P (xs @ ys)
          + (case students (dict_get (course_details P) c no_details) of
               None \<Rightarrow> 0 | Some n \<Rightarrow> if 0 < n then n * 1000 else 0)"
    unfolding sa_constraint2_eq by (rule g2)
qed

text \<open>
  The claim as first stated fails: a course of 30 students put into a room that is not
  in \<open>room_capacities\<close> is charged 30000 by constraint 2 of either engine, not nothing.
\<close>

theorem C3_absent_room_counterexample:
  "map_of (room_capacities wit_problem) ''R9'' = None
   \<and> ga_constraint2 [(''A'', (''T1'', ''R9''))] (course_details wit_problem)
        (room_capacities wit_problem) = 30000
   \<and> sa_constraint2 wit_problem [(''A'', (''T1'', ''R9''))] = 30000"
  by (simp add: wit_problem_def ga_constraint2_def sa_constraint2_def dict_get_def
      ga_PENALTIES_def sa_PENALTIES_def)

theorem C3_missing_lookups_witness:
  "map_of (course_details wit_problem) ''B'' = None
   \<and> map_of (room_capacities wit_problem) ''R9'' = None
   \<and> ga_constraint3 [(''B'', (''T1'', ''R9''))] (course_details wit_problem)
       = ga_constraint3 [] (course_details wit_problem)
   \<and> ga_constraint4 [(''B'', (''T1'', ''R9''))] (course_details wit_problem)
       = ga_constraint4 [] (course_details wit_problem)
   \<and> ga_constraint2 [(''B'', (''T1'', ''R9''))] (course_details wit_problem)
        (room_capacities wit_problem) = 0
   \<and> ga_constraint2 [(''A'', (''T1'', ''R9''))] (course_details wit_problem)
        (room_capacities wit_problem) = 30000"
proof -
  have h1: "map_of (course_details wit_problem) ''B'' = None"
    by (simp add: wit_problem_def)
  have h2: "map_of (room_capacities wit_problem) ''R9'' = None"
    by (simp add: wit_problem_def)
  have cap: "dict_get (room_capacities wit_problem) ''R9'' 0 = 0"
    using h2 by (simp add: dict_get_def)
  have enr: "students (dict_get (course_details wit_problem) ''A'' no_details) = Some 30"
    by (simp add: wit_problem_def dict_get_def)
  have e: "ga_constraint2 [] (course_details wit_problem) (room_capacities wit_problem) = 0"
    by (simp add: ga_constraint2_def)
  show ?thesis
    using C3_missing_lookups [of wit_problem "''B''" "[]" "''T1''" "''R9''" "[]"]
      C3_missing_lookups [of wit_problem "''A''" "[]" "''T1''" "''R9''" "[]"]
      h1 h2
    by (simp add: cap enr e)
qed

section \<open>The annealing run\<close>

lemma random_choice_Inr:
  "random_choice seq g = Inr (x, g') \<Longrightarrow> x \<in> set seq \<and> g' = rng_tail g"
  by (auto simp: random_choice_def split: if_splits)

lemma random_choice_ok: "seq \<noteq> [] \<Longrightarrow> \<exists>x. random_choice seq g = Inr (x, rng_tail g)"
  by (simp add: random_choice_def)

lemma neighbor_Inr:
  assumes "neighbor P h a g = Inr (h1, nb, g1)"
  shows "nb = length h \<and> length h1 = Suc (length h) \<and> (\<forall>i < length h. h1 ! i = h ! i)"
  using assms
  by (auto simp: neighbor_def Let_def nth_append split: sum.splits prod.splits)


lemma sa_step_Some:
  assumes "sa_step fl rate P l s g = Inr (Some (l1, s1, g1))" and "sa_inv P l s"
  shows "sa_inv P l1 s1
     \<and> length (sa_heap s) \<le> length (sa_heap s1)
     \<and> (\<forall>i < length (sa_heap s). sa_heap s1 ! i = sa_heap s ! i)
     \<and> fitness_history s1 = fitness_history s @ [current_fitness l1]
     \<and> sa_best_fitness s1 = Some (max (the (sa_best_fitness s)) (current_fitness l1))
     \<and> sa_current s1 = sa_current s"
proof -
  from assms(1) obtain h1 nb g0 where n: "neighbor P (sa_heap s) (current l) g = Inr (h1, nb, g0)"
    by (auto simp: sa_step_def Let_def split: if_splits sum.splits)
  note nb = neighbor_Inr [OF n]
  from assms(2) obtain b where b: "sa_best_individual s = Some b" "b < length (sa_heap s)"
     "sa_best_fitness s = Some (sa_fitness P (sa_heap s ! b))"
     and c: "current l < length (sa_heap s)"
        "current_fitness l = sa_fitness P (sa_heap s ! current l)"
    by (auto simp: sa_inv_def)
  show ?thesis
    using assms(1) n nb b c
    by (auto simp: sa_step_def Let_def sa_inv_def split: if_splits prod.splits)
qed



lemma sa_loop_inv:
  assumes "sa_loop fl rate P n l s g = Inr (s', g')" and "sa_inv P l s"
  shows "(\<exists>b. sa_best_individual s' = Some b \<and> b < length (sa_heap s') \<and>
              sa_best_fitness s' = Some (sa_fitness P (sa_heap s' ! b)))
     \<and> length (sa_heap s) \<le> length (sa_heap s')
     \<and> (\<forall>i < length (sa_heap s). sa_heap s' ! i = sa_heap s ! i)
     \<and> (\<exists>hist. fitness_history s' = fitness_history s @ hist \<and>
           sa_best_fitness s' = Some (fold max hist (the (sa_best_fitness s))))
     \<and> sa_current s' = sa_current s"
  using assms
proof (induction n arbitrary: l s g)
  case 0
  then show ?case by (auto simp: sa_inv_def)
next
  case (Suc n)
  from Suc.prems(1) obtain r where r: "sa_step fl rate P l s g = Inr r"
    by (auto split: sum.splits)
  show ?case
  proof (cases r)
    case None
    with r Suc.prems show ?thesis by (auto simp: sa_inv_def)
  next
    case (Some x)
    obtain l1 s1 g1 where x: "x = (l1, s1, g1)" by (cases x)
    from r Some x have st: "sa_step fl rate P l s g = Inr (Some (l1, s1, g1))" by simp
    with Suc.prems(1) have lp: "sa_loop fl rate P n l1 s1 g1 = Inr (s', g')" by simp
    note a = sa_step_Some [OF st Suc.prems(2)]
    from a have inv1: "sa_inv P l1 s1" by simp
    note ih = Suc.IH [OF lp inv1]
    from ih obtain hist where h: "fitness_history s' = fitness_history s1 @ hist"
      "sa_best_fitness s' = Some (fold max hist (the (sa_best_fitness s1)))" by blast
    have "fitness_history s' = fitness_history s @ (current_fitness l1 # hist)"
      using h a by simp
    moreover have "sa_best_fitness s' =
        Some (fold max (current_fitness l1 # hist) (the (sa_best_fitness s)))"
      using h a by (simp add: max.commute)
    ultimately have "\<exists>hist. fitness_history s' = fitness_history s @ hist \<and>
           sa_best_fitness s' = Some (fold max hist (the (sa_best_fitness s)))" by blast
    moreover have "\<forall>i < length (sa_heap s). sa_heap s' ! i = sa_heap s ! i"
      using a ih by auto
    moreover have "length (sa_heap s) \<le> length (sa_heap s')" using a ih by auto
    ultimately show ?thesis using ih a by simp
  qed
qed

lemma fold_max_Max: "fold max xs (a::int) = Max (insert a (set xs))"
  using Max.set_eq_fold [of a xs] by simp

lemma sa_init_Inr:
  assumes "sa_init P g0 = Inr (s, g)"
  shows "sa_current s = 0 \<and> length (sa_heap s) = 1 \<and> fitness_history s = []"
  using assms by (auto simp: sa_init_def split: sum.splits)

text \<open>
  C6. A run of the annealing engine, started on a freshly constructed engine, returns the
  best schedule of the whole trajectory: the returned reference is the stored best
  individual, its fitness is the maximum of the initial schedule's fitness and all the
  per-iteration current fitness values recorded in \<open>fitness_history\<close>, and so it is
  greater than or equal to every entry of the history.
\<close>

theorem C6_sa_returns_best:
  assumes "sa_init P g0 = Inr (s, g)" and "sa_run fl cfg P s g = Inr (b, s', g')"
  shows "\<exists>r. b = Some r \<and> sa_best_individual s' = Some r \<and> r < length (sa_heap s')
      \<and> sa_best_fitness s' = Some (sa_fitness P (sa_heap s' ! r))
      \<and> sa_fitness P (sa_heap s' ! r) =
          Max (insert (sa_fitness P (sa_heap s ! sa_current s)) (set (fitness_history s')))
      \<and> (\<forall>f \<in> set (fitness_history s'). f \<le> sa_fitness P (sa_heap s' ! r))"
proof -
  let ?f0 = "sa_fitness P (sa_heap s ! sa_current s)"
  let ?s0 = "s\<lparr>sa_best_individual := Some (sa_current s), sa_best_fitness := Some ?f0\<rparr>"
  let ?l0 = "\<lparr>temperature = initial_temperature cfg, current = sa_current s,
               current_fitness = ?f0\<rparr>"
  note i = sa_init_Inr [OF assms(1)]
  from assms(2) have lp: "sa_loop fl (cooling_rate cfg) P (nat (max_iter cfg)) ?l0 ?s0 g = Inr (s', g')"
    and b: "b = sa_best_individual s'"
    by (auto simp: sa_run_def Let_def split: sum.splits)
  have inv: "sa_inv P ?l0 ?s0" using i by (simp add: sa_inv_def)
  from sa_loop_inv [OF lp inv] obtain r hist where
    r: "sa_best_individual s' = Some r" "r < length (sa_heap s')"
       "sa_best_fitness s' = Some (sa_fitness P (sa_heap s' ! r))"
    and h: "fitness_history s' = hist" "sa_best_fitness s' = Some (fold max hist ?f0)"
    using i by auto
  from r h have m: "sa_fitness P (sa_heap s' ! r) = Max (insert ?f0 (set (fitness_history s')))"
    by (simp add: fold_max_Max)
  have "\<forall>f \<in> set (fitness_history s'). f \<le> sa_fitness P (sa_heap s' ! r)"
    unfolding m by simp
  with r m b show ?thesis by simp
qed

lemma wit_fitness: "sa_fitness wit_problem wit_schedule = 0"
  by (simp add: sa_fitness_def sa_constraint1_def sa_constraint2_def sa_constraint3_def
      sa_constraint4_def sa_constraint5_def wit_problem_def wit_schedule_def
      setdefault_append_def dict_get_def truthy_def times_assigned_of_def count_extra_def
      List.map_filter_simps no_details_def Let_def)

lemma wit_sa_init: "sa_init wit_problem (\<lambda>i. 0) = Inr (wit_sa_state0, \<lambda>i. 0)"
  by (simp add: sa_init_def create_individual_def random_choice_def wit_problem_def
      wit_schedule_def rng_tail_def wit_sa_state0_def)

lemma wit_neighbor:
  "neighbor wit_problem [wit_schedule] 0 (\<lambda>i. 0) = Inr ([wit_schedule, wit_schedule], 1, \<lambda>i. 0)"
  by (simp add: neighbor_def random_choice_def wit_problem_def wit_schedule_def rng_tail_def
      Let_def)

lemma wit_sa_run:
  "sa_run ideal_float_ops wit_sa_config wit_problem wit_sa_state0 (\<lambda>i. 0) =
     Inr (Some 0, wit_sa_state1, \<lambda>i. 0)"
  by (simp add: sa_run_def sa_step_def wit_neighbor wit_fitness wit_sa_config_def
      ideal_float_ops_def random_random_def rng_tail_def Let_def wit_sa_state0_def
      wit_sa_state1_def)

theorem C6_sa_returns_best_witness:
  "sa_init wit_problem (\<lambda>i. 0) = Inr (wit_sa_state0, \<lambda>i. 0)
   \<and> sa_run ideal_float_ops wit_sa_config wit_problem wit_sa_state0 (\<lambda>i. 0) =
       Inr (Some 0, wit_sa_state1, \<lambda>i. 0)
   \<and> (\<exists>r. Some 0 = Some r \<and> sa_best_individual wit_sa_state1 = Some r
        \<and> r < length (sa_heap wit_sa_state1)
        \<and> sa_best_fitness wit_sa_state1 = Some (sa_fitness wit_problem (sa_heap wit_sa_state1 ! r))
        \<and> sa_fitness wit_problem (sa_heap wit_sa_state1 ! r) =
            Max (insert (sa_fitness wit_problem (sa_heap wit_sa_state0 ! sa_current wit_sa_state0))
                   (set (fitness_history wit_sa_state1)))
        \<and> (\<forall>f \<in> set (fitness_history wit_sa_state1).
              f \<le> sa_fitness wit_problem (sa_heap wit_sa_state1 ! r)))"
  using wit_sa_init wit_sa_run C6_sa_returns_best [OF wit_sa_init wit_sa_run]
  by (intro conjI) assumption+

section \<open>The genetic run\<close>

subsection \<open>Selection\<close>

lemma py_max_Inr: "py_max xs = Inr m \<Longrightarrow> xs \<noteq> [] \<and> m = Max (set xs)"
  by (cases xs) (auto simp: fold_max_Max)


lemma list_index_Inr: "list_index xs x = Inr i \<Longrightarrow> i < length xs \<and> xs ! i = x"
  by (induction xs arbitrary: i) (auto split: if_splits sum.splits)


lemma max_key_Inr: "max_key f xs = Inr w \<Longrightarrow> w \<in> set xs"
proof (cases xs)
  case Nil
  then show "max_key f xs = Inr w \<Longrightarrow> w \<in> set xs" by simp
next
  case (Cons x ys)
  have "fold (\<lambda>y best. if f y > f best then y else best) zs b \<in> insert b (set zs)" for zs b
    by (induction zs arbitrary: b) auto
  with Cons show "max_key f xs = Inr w \<Longrightarrow> w \<in> set xs" by auto
qed

lemma max_key_ok: "xs \<noteq> [] \<Longrightarrow> \<exists>w. max_key f xs = Inr w"
  by (cases xs) auto

lemma set_butlast_update: "set (butlast (pool[j := last pool])) \<subseteq> set pool"
proof (cases "pool = []")
  case True
  then show ?thesis by simp
next
  case False
  have "set (butlast (pool[j := last pool])) \<subseteq> set (pool[j := last pool])"
    by (auto dest: in_set_butlastD)
  also have "\<dots> \<subseteq> insert (last pool) (set pool)" by (rule set_update_subset_insert)
  also have "\<dots> \<subseteq> set pool" using False by simp
  finally show ?thesis .
qed

lemma sample_pool_Inr:
  "k \<le> length pool \<Longrightarrow> sample_pool pool k g = (res, g')
   \<Longrightarrow> length res = k \<and> set res \<subseteq> set pool"
proof (induction k arbitrary: pool g res g')
  case 0
  then show ?case by simp
next
  case (Suc k)
  let ?j = "g 0 mod length pool"
  let ?pool = "butlast (pool[?j := last pool])"
  obtain r1 g1 where r: "sample_pool ?pool k (rng_tail g) = (r1, g1)"
    by (cases "sample_pool ?pool k (rng_tail g)")
  from Suc.prems have len: "k \<le> length ?pool" and pos: "0 < length pool" by auto
  from Suc.IH [OF len r] have ih: "length r1 = k" "set r1 \<subseteq> set ?pool" by auto
  from Suc.prems(2) r have res: "res = pool ! ?j # r1" by (simp add: Let_def)
  have "pool ! ?j \<in> set pool" using pos by simp
  with ih res set_butlast_update [of pool ?j] show ?case by auto
qed

lemma select_population_Inr:
  "select_population pop fitness n g = Inr (sel, g')
   \<Longrightarrow> length sel = n \<and> set sel \<subseteq> set pop"
proof (induction n arbitrary: g sel g')
  case 0
  then show ?case by simp
next
  case (Suc n)
  from Suc.prems obtain competitors g1 winner sel1 where
    s: "random_sample (zip pop fitness) tournament_size g = Inr (competitors, g1)"
    and w: "max_key snd competitors = Inr winner"
    and r: "select_population pop fitness n g1 = Inr (sel1, g')"
    and sel: "sel = fst winner # sel1"
    by (auto split: sum.splits prod.splits)
  from s have "tournament_size \<le> length (zip pop fitness)"
    and "sample_pool (zip pop fitness) tournament_size g = (competitors, g1)"
    by (auto simp: random_sample_def simp del: length_zip split: if_splits)
  then have "set competitors \<subseteq> set (zip pop fitness)"
    using sample_pool_Inr [of tournament_size "zip pop fitness" g competitors g1] by blast
  with max_key_Inr [OF w] have "winner \<in> set (zip pop fitness)" by auto
  then have "(fst winner, snd winner) \<in> set (zip pop fitness)" by simp
  then have "fst winner \<in> set pop" by (rule set_zip_leftD)
  with Suc.IH [OF r] sel show ?case by auto
qed

lemma select_population_ok:
  assumes "tournament_size \<le> length (zip pop fitness)"
  shows "\<exists>r. select_population pop fitness n g = Inr r"
proof (induction n arbitrary: g)
  case 0
  show ?case by simp
next
  case (Suc n)
  obtain competitors g1 where sp: "sample_pool (zip pop fitness) tournament_size g = (competitors, g1)"
    by (cases "sample_pool (zip pop fitness) tournament_size g")
  with assms have s: "random_sample (zip pop fitness) tournament_size g = Inr (competitors, g1)"
    by (simp add: random_sample_def not_less del: length_zip)
  from sample_pool_Inr [OF assms sp] have "competitors \<noteq> []"
    by (auto simp: tournament_size_def)
  from max_key_ok [OF this] obtain winner where w: "max_key snd competitors = Inr winner"
    by blast
  from Suc.IH [of g1] obtain r where "select_population pop fitness n g1 = Inr r" by blast
  with s w show ?case by (cases r) simp
qed

lemma select_population_short:
  assumes "length (zip pop fitness) < tournament_size"
  shows "select_population pop fitness (Suc n) g = Inl ValueError"
  using assms by (simp add: random_sample_def del: length_zip)

subsection \<open>Creation and mutation keep the keys\<close>

lemma create_individual_loop_Inr:
  "create_individual_loop P cs sch g = Inr (sch', g')
   \<Longrightarrow> fst ` set sch' = fst ` set sch \<union> set cs"
proof (induction cs arbitrary: sch g)
  case Nil
  then show ?case by simp
next
  case (Cons c cs)
  from Cons.prems obtain t g1 r g2 where
    "create_individual_loop P cs (AList.update c (t, r) sch) g2 = Inr (sch', g')"
    by (auto split: sum.splits prod.splits)
  from Cons.IH [OF this] show ?case by (auto simp: dom_update)
qed


lemma create_individual_Inr:
  "create_individual P g = Inr (ind, g') \<Longrightarrow> fst ` set ind = set (courses P)"
  using create_individual_loop_Inr [of P "courses P" "[]" g ind g']
  by (simp add: create_individual_def)



lemma create_population_Inr:
  "create_population P n g = Inr (inds, g')
   \<Longrightarrow> length inds = n \<and> (\<forall>ind \<in> set inds. fst ` set ind = set (courses P))"
proof (induction n arbitrary: g inds)
  case 0
  then show ?case by simp
next
  case (Suc n)
  from Suc.prems obtain ind g1 rest where
    c: "create_individual P g = Inr (ind, g1)"
    and r: "create_population P n g1 = Inr (rest, g')"
    and i: "inds = ind # rest"
    by (auto split: sum.splits prod.splits)
  from Suc.IH [OF r] create_individual_Inr [OF c] i show ?case by auto
qed


lemma mutate_loop_Inr:
  "mutate_loop P rate cs ind g = Inr (ind', g') \<Longrightarrow> set cs \<subseteq> fst ` set ind
   \<Longrightarrow> fst ` set ind' = fst ` set ind"
proof (induction cs arbitrary: ind g)
  case Nil
  then show ?case by simp
next
  case (Cons c cs)
  obtain u g1 where u: "random_random g = (u, g1)" by (cases "random_random g")
  show ?case
  proof (cases "u < rate")
    case True
    with Cons.prems(1) u obtain t g2 r g3 where
      m: "mutate_loop P rate cs (AList.update c (t, r) ind) g3 = Inr (ind', g')"
      by (auto split: sum.splits prod.splits)
    have k: "fst ` set (AList.update c (t, r) ind) = fst ` set ind"
      using Cons.prems(2) by (auto simp: dom_update)
    from Cons.IH [OF m] k Cons.prems(2) show ?thesis by auto
  next
    case False
    with Cons.prems(1) u have "mutate_loop P rate cs ind g1 = Inr (ind', g')" by simp
    from Cons.IH [OF this] Cons.prems(2) show ?thesis by auto
  qed
qed

lemma mutate_loop_ok:
  assumes "time_slots P \<noteq> []" "rooms P \<noteq> []"
  shows "\<exists>r. mutate_loop P rate cs ind g = Inr r"
  using assms
  by (induction cs arbitrary: ind g) (simp_all add: random_choice_def split: prod.splits)

lemma mutate_Inr: "mutate P rate ind g = Inr (ind', g') \<Longrightarrow> fst ` set ind' = fst ` set ind"
  using mutate_loop_Inr [of P rate "map fst ind" ind g ind' g'] by (simp add: mutate_def)

lemma mutate_ok:
  assumes "time_slots P \<noteq> []" "rooms P \<noteq> []"
  shows "\<exists>r. mutate P rate ind g = Inr r"
  unfolding mutate_def by (rule mutate_loop_ok [OF assms])

subsection \<open>Breeding: pairing, crossover, mutation\<close>

lemma crossover_Inr:
  assumes "crossover P p1 p2 g = Inr ((c1, c2), g')"
  shows "fst ` set c1 = set (courses P) \<and> fst ` set c2 = set (courses P)"
  using crossover_loop_keys [of "courses P" p1 p2 "[]" "[]" g c1 c2 g'] assms
  by (simp add: crossover_def)

lemma crossover_ok:
  assumes "set (courses P) \<subseteq> fst ` set p1" "set (courses P) \<subseteq> fst ` set p2"
  shows "\<exists>r. crossover P p1 p2 g = Inr r"
proof -
  have "\<forall>c \<in> set (courses P). map_of p1 c \<noteq> None \<and> map_of p2 c \<noteq> None"
    using assms by (auto simp: map_of_eq_None_iff)
  from crossover_loop_ok [OF this] show ?thesis by (simp add: crossover_def)
qed

lemma upt_two: "[a ..< a + 2 * Suc m] = a # Suc a # [a + 2 ..< a + 2 + 2 * m]"
  by (simp add: upt_conv_Cons)

lemma pair_loop_Inr:
  assumes "pair_loop P n sel is h ng g = Inr (h', ng', g')"
  shows "(\<exists>extra. h' = h @ extra \<and> length extra = 2 * length is)
     \<and> ng' = ng @ [length h ..< length h + 2 * length is]
     \<and> (keys_ok P h \<longrightarrow> keys_ok P h')"
  using assms
proof (induction "is" arbitrary: h ng g)
  case Nil
  then show ?case by simp
next
  case (Cons i "is")
  from Cons.prems obtain p1 p2 c1 c2 g1 where
    c: "crossover P (h ! p1) (h ! p2) g = Inr ((c1, c2), g1)"
    and r: "pair_loop P n sel is (h @ [c1, c2]) (ng @ [length h, Suc (length h)]) g1
            = Inr (h', ng', g')"
    by (auto split: sum.splits prod.splits)
  note ih = Cons.IH [OF r]
  from ih obtain extra where e: "h' = (h @ [c1, c2]) @ extra" "length extra = 2 * length is"
    by blast
  have 1: "\<exists>extra. h' = h @ extra \<and> length extra = 2 * length (i # is)"
    using e by (intro exI [of _ "[c1, c2] @ extra"]) simp
  have 2: "ng' = ng @ [length h ..< length h + 2 * length (i # is)]"
    using ih upt_two [of "length h" "length is"] by simp
  have 3: "keys_ok P h \<longrightarrow> keys_ok P h'"
  proof
    assume "keys_ok P h"
    with crossover_Inr [OF c] have "keys_ok P (h @ [c1, c2])"
      by (auto simp: keys_ok_def)
    with ih show "keys_ok P h'" by simp
  qed
  from 1 2 3 show ?case by blast
qed

lemma pair_loop_ok:
  assumes "\<forall>i \<in> set is. i < length sel \<and> (i + 1) mod n < length sel"
    and "refs_ok h sel" and "keys_ok P h"
  shows "\<exists>r. pair_loop P n sel is h ng g = Inr r"
  using assms
proof (induction "is" arbitrary: h ng g)
  case Nil
  show ?case by simp
next
  case (Cons i "is")
  let ?p1 = "sel ! i" and ?p2 = "sel ! ((i + 1) mod n)"
  from Cons.prems have i: "i < length sel" "(i + 1) mod n < length sel" by auto
  with Cons.prems(2) have p: "?p1 < length h" "?p2 < length h"
    by (auto simp: refs_ok_def)
  with Cons.prems(3) have k: "set (courses P) \<subseteq> fst ` set (h ! ?p1)"
    "set (courses P) \<subseteq> fst ` set (h ! ?p2)"
    by (auto simp: keys_ok_def)
  from crossover_ok [OF k, of g] obtain c1 c2 g1 where
    c: "crossover P (h ! ?p1) (h ! ?p2) g = Inr ((c1, c2), g1)"
    by (metis surj_pair)
  have r: "refs_ok (h @ [c1, c2]) sel"
    using Cons.prems(2) by (auto simp: refs_ok_def)
  have ko: "keys_ok P (h @ [c1, c2])"
    using Cons.prems(3) crossover_Inr [OF c] by (auto simp: keys_ok_def)
  have rest: "\<forall>i \<in> set is. i < length sel \<and> (i + 1) mod n < length sel"
    using Cons.prems(1) by simp
  from Cons.IH [OF rest r ko, of "ng @ [length h, Suc (length h)]" g1] i c
  show ?case by (simp add: list_getitem_def)
qed

lemma mutate_all_Inr:
  assumes "mutate_all P rate refs h g = Inr (h', pop, g')"
  shows "pop = refs \<and> length h' = length h
     \<and> (\<forall>a. a \<notin> set refs \<longrightarrow> h' ! a = h ! a)
     \<and> (keys_ok P h \<longrightarrow> keys_ok P h')"
  using assms
proof (induction refs arbitrary: h g pop)
  case Nil
  then show ?case by simp
next
  case (Cons child rest)
  from Cons.prems obtain ind g1 pop1 where
    m: "mutate P rate (h ! child) g = Inr (ind, g1)"
    and r: "mutate_all P rate rest (h[child := ind]) g1 = Inr (h', pop1, g')"
    and p: "pop = child # pop1"
    by (auto split: sum.splits prod.splits)
  note ih = Cons.IH [OF r]
  have k: "keys_ok P h \<Longrightarrow> keys_ok P (h[child := ind])"
  proof -
    assume a: "keys_ok P h"
    show "keys_ok P (h[child := ind])"
    proof (cases "child < length h")
      case True
      with a have "set (courses P) \<subseteq> fst ` set (h ! child)" by (simp add: keys_ok_def)
      with mutate_Inr [OF m] have c: "set (courses P) \<subseteq> fst ` set ind" by simp
      have "ind' \<in> insert ind (set h)" if "ind' \<in> set (h[child := ind])" for ind'
        using that set_update_subset_insert [of h child ind] by blast
      with a c show ?thesis
        unfolding keys_ok_def by blast
    next
      case False
      then have "h[child := ind] = h" by (simp add: list_update_beyond)
      with a show ?thesis by simp
    qed
  qed
  from ih p k show ?case by auto
qed

lemma mutate_all_ok:
  assumes "time_slots P \<noteq> []" "rooms P \<noteq> []"
  shows "\<exists>r. mutate_all P rate refs h g = Inr r"
proof (induction refs arbitrary: h g)
  case Nil
  show ?case by simp
next
  case (Cons child rest)
  from mutate_ok [OF assms, of rate "h ! child" g] obtain ind g1 where
    m: "mutate P rate (h ! child) g = Inr (ind, g1)" by (metis surj_pair)
  from Cons.IH [of "h[child := ind]" g1] obtain r where
    "mutate_all P rate rest (h[child := ind]) g1 = Inr r" by blast
  with m show ?case by (cases r) auto
qed

lemma length_range_step2: "length (range_step2 n) = (n + 1) div 2"
  by (simp add: range_step2_def)

lemma range_step2_bound: "i \<in> set (range_step2 n) \<Longrightarrow> i < n \<and> (i + 1) mod n < n"
  by (auto simp: range_step2_def)

lemma ga_breed_Inr:
  assumes "ga_breed cfg P fitnesses s g = Inr (s', g')"
  shows "length (ga_heap s') = length (ga_heap s) + 2 * ((nat (population_size cfg) + 1) div 2)
     \<and> (\<forall>a < length (ga_heap s). ga_heap s' ! a = ga_heap s ! a)
     \<and> population s' = [length (ga_heap s) ..<
                          length (ga_heap s) + 2 * ((nat (population_size cfg) + 1) div 2)]
     \<and> ga_best_individual s' = ga_best_individual s
     \<and> ga_best_fitness s' = ga_best_fitness s
     \<and> current_best_history s' = current_best_history s
     \<and> (keys_ok P (ga_heap s) \<longrightarrow> keys_ok P (ga_heap s'))"
proof -
  let ?n = "nat (population_size cfg)"
  from assms obtain sel g1 h1 ng g2 h2 pop where
    pl: "pair_loop P ?n sel (range_step2 ?n) (ga_heap s) [] g1 = Inr (h1, ng, g2)"
    and ma: "mutate_all P (mutation_rate cfg) ng h1 g2 = Inr (h2, pop, g')"
    and s': "s' = s\<lparr>ga_heap := h2, population := pop\<rparr>"
    by (auto simp: ga_breed_def Let_def split: sum.splits prod.splits)
  from pair_loop_Inr [OF pl] obtain extra where
    h1: "h1 = ga_heap s @ extra" "length extra = 2 * ((?n + 1) div 2)"
    and ng: "ng = [length (ga_heap s) ..< length (ga_heap s) + 2 * ((?n + 1) div 2)]"
    and k1: "keys_ok P (ga_heap s) \<longrightarrow> keys_ok P h1"
    by (auto simp: length_range_step2)
  note m = mutate_all_Inr [OF ma]
  have "\<forall>a < length (ga_heap s). h2 ! a = ga_heap s ! a"
  proof (intro allI impI)
    fix a assume a: "a < length (ga_heap s)"
    then have "a \<notin> set ng" by (simp add: ng)
    with m have "h2 ! a = h1 ! a" by simp
    with a h1 show "h2 ! a = ga_heap s ! a" by (simp add: nth_append)
  qed
  with m h1 ng k1 s' show ?thesis by simp
qed

lemma ga_breed_ok:
  assumes "tournament_size \<le> length (zip (population s) fitnesses)"
    and "refs_ok (ga_heap s) (population s)" and "keys_ok P (ga_heap s)"
    and "time_slots P \<noteq> []" "rooms P \<noteq> []"
  shows "\<exists>r. ga_breed cfg P fitnesses s g = Inr r"
proof -
  let ?n = "nat (population_size cfg)"
  from select_population_ok [OF assms(1), of ?n g] obtain sel g1 where
    sp: "select_population (population s) fitnesses ?n g = Inr (sel, g1)"
    by (metis surj_pair)
  from select_population_Inr [OF sp] have sel: "length sel = ?n" "set sel \<subseteq> set (population s)"
    by auto
  with assms(2) have r: "refs_ok (ga_heap s) sel" by (auto simp: refs_ok_def)
  have ix: "\<forall>i \<in> set (range_step2 ?n). i < length sel \<and> (i + 1) mod ?n < length sel"
    using range_step2_bound [of _ ?n] sel by auto
  from pair_loop_ok [OF ix r assms(3), of "[]" g1] obtain h1 ng g2 where
    pl: "pair_loop P ?n sel (range_step2 ?n) (ga_heap s) [] g1 = Inr (h1, ng, g2)"
    by (metis surj_pair)
  from mutate_all_ok [OF assms(4,5), of "mutation_rate cfg" ng h1 g2] obtain h2 pop g3 where
    "mutate_all P (mutation_rate cfg) ng h1 g2 = Inr (h2, pop, g3)"
    by (metis surj_pair)
  with sp pl show ?thesis by (simp add: ga_breed_def Let_def)
qed

subsection \<open>Generations\<close>

lemma ga_evaluate_Inr:
  assumes "ga_evaluate P s = Inr (f, s1)"
  shows "f = map (\<lambda>ind. ga_fitness P (ga_heap s ! ind)) (population s)
     \<and> population s \<noteq> []
     \<and> ga_heap s1 = ga_heap s \<and> population s1 = population s
     \<and> current_best_history s1 = current_best_history s @ [Max (set f)]
     \<and> ga_best_fitness s1 =
         Some (case ga_best_fitness s of None \<Rightarrow> Max (set f) | Some b \<Rightarrow> max b (Max (set f)))
     \<and> (refs_ok (ga_heap s) (population s) \<longrightarrow> best_ok P s \<longrightarrow>
          best_ok P s1 \<and> ga_best_individual s1 \<noteq> None)"
proof -
  let ?f = "map (\<lambda>ind. ga_fitness P (ga_heap s ! ind)) (population s)"
  from assms obtain m where m: "py_max ?f = Inr m"
    by (auto simp: ga_evaluate_def Let_def split: sum.splits)
  from py_max_Inr [OF m] have ne: "?f \<noteq> []" and mx: "m = Max (set ?f)" by auto
  show ?thesis
  proof (cases "case ga_best_fitness s of None \<Rightarrow> True | Some b \<Rightarrow> m > b")
    case True
    with assms m obtain i ind where
      i: "list_index ?f m = Inr i" and g: "list_getitem (population s) i = Inr ind"
      and s1: "s1 = s\<lparr>current_best_history := current_best_history s @ [m],
                       ga_best_fitness := Some m, ga_best_individual := Some ind\<rparr>"
      and f: "f = ?f"
      by (auto simp: ga_evaluate_def Let_def split: sum.splits)
    from list_index_Inr [OF i] have ix: "i < length (population s)" "?f ! i = m" by auto
    with g have ind: "ind = population s ! i" by (simp add: list_getitem_def)
    from ix ind have fit: "ga_fitness P (ga_heap s ! ind) = m" by simp
    have "refs_ok (ga_heap s) (population s) \<longrightarrow> best_ok P s1 \<and> ga_best_individual s1 \<noteq> None"
      using ix ind fit by (auto simp: refs_ok_def best_ok_def s1)
    with True ne mx f s1 show ?thesis
      by (auto split: option.splits)
  next
    case False
    with assms m have s1: "s1 = s\<lparr>current_best_history := current_best_history s @ [m]\<rparr>"
      and f: "f = ?f"
      by (auto simp: ga_evaluate_def Let_def split: sum.splits)
    from False obtain b where b: "ga_best_fitness s = Some b" "\<not> m > b"
      by (auto split: option.splits)
    have "best_ok P s \<longrightarrow> best_ok P s1 \<and> ga_best_individual s1 \<noteq> None"
      using b by (auto simp: best_ok_def s1 split: option.splits)
    with b ne mx f s1 show ?thesis by (auto simp: max_def)
  qed
qed


lemma ga_evaluate_empty:
  "population s = [] \<Longrightarrow> ga_evaluate P s = Inl ValueError"
  by (simp add: ga_evaluate_def)

lemma ga_generation_wf:
  assumes wf: "ga_wf P s" and e: "ga_evaluate P s = Inr (f, s1)"
    and b: "ga_breed cfg P f s1 g = Inr (s2, g2)"
  shows "ga_wf P s2 \<and> length (ga_heap s) \<le> length (ga_heap s2)
     \<and> (\<forall>a < length (ga_heap s). ga_heap s2 ! a = ga_heap s ! a)
     \<and> ga_best_individual s2 \<noteq> None
     \<and> length (population s2) = 2 * ((nat (population_size cfg) + 1) div 2)"
proof -
  note ev = ga_evaluate_Inr [OF e]
  note br = ga_breed_Inr [OF b]
  from wf ev have b1: "best_ok P s1" "ga_best_individual s1 \<noteq> None"
    by (auto simp: ga_wf_def)
  from wf ev br have k: "keys_ok P (ga_heap s2)" by (auto simp: ga_wf_def)
  from br have r: "refs_ok (ga_heap s2) (population s2)" by (simp add: refs_ok_def)
  from b1 br ev have "best_ok P s2"
    by (auto simp: best_ok_def split: option.splits)
  with k r b1 br ev show ?thesis by (auto simp: ga_wf_def)
qed

lemma ga_loop_inv:
  assumes "ga_loop cfg P k s g = Inr (s', g')" and "ga_wf P s"
  shows "ga_wf P s' \<and> length (ga_heap s) \<le> length (ga_heap s')
     \<and> (\<forall>a < length (ga_heap s). ga_heap s' ! a = ga_heap s ! a)
     \<and> (0 < k \<longrightarrow> ga_best_individual s' \<noteq> None)"
  using assms
proof (induction k arbitrary: s g)
  case 0
  then show ?case by simp
next
  case (Suc k)
  from Suc.prems(1) obtain f s1 where e: "ga_evaluate P s = Inr (f, s1)"
    by (auto split: sum.splits)
  note ev = ga_evaluate_Inr [OF e]
  from Suc.prems(2) ev have b1: "best_ok P s1" "ga_best_individual s1 \<noteq> None"
    by (auto simp: ga_wf_def)
  show ?case
  proof (cases "ga_best_fitness s1 = Some 0")
    case True
    with Suc.prems(1) e have "s' = s1" by simp
    with Suc.prems(2) ev b1 show ?thesis by (auto simp: ga_wf_def)
  next
    case False
    with Suc.prems(1) e obtain s2 g2 where
      b: "ga_breed cfg P f s1 g = Inr (s2, g2)" and l: "ga_loop cfg P k s2 g2 = Inr (s', g')"
      by (auto split: sum.splits)
    note gen = ga_generation_wf [OF Suc.prems(2) e b]
    from gen have wf2: "ga_wf P s2" by simp
    note ih = Suc.IH [OF l wf2]
    have "ga_best_individual s' \<noteq> None"
    proof (cases k)
      case 0
      with l gen show ?thesis by simp
    next
      case (Suc k')
      with ih show ?thesis by simp
    qed
    moreover have "\<forall>a < length (ga_heap s). ga_heap s' ! a = ga_heap s ! a"
      using gen ih by auto
    moreover have "length (ga_heap s) \<le> length (ga_heap s')" using gen ih by auto
    ultimately show ?thesis using ih by simp
  qed
qed


lemma ga_init_Inr:
  assumes "ga_init cfg P g0 = Inr (s, g)"
  shows "ga_wf P s \<and> length (population s) = nat (population_size cfg)
     \<and> ga_best_individual s = None \<and> ga_best_fitness s = None
     \<and> current_best_history s = []"
proof -
  from assms obtain inds where
    c: "create_population P (nat (population_size cfg)) g0 = Inr (inds, g)"
    and s: "s = \<lparr>ga_heap = inds, population = [0..<length inds], ga_best_individual = None,
                 ga_best_fitness = None, current_best_history = []\<rparr>"
    by (auto simp: ga_init_def split: sum.splits)
  from create_population_Inr [OF c] s show ?thesis
    by (auto simp: ga_wf_def refs_ok_def keys_ok_def best_ok_def)
qed




subsection \<open>Concrete runs\<close>

lemma wit_create_individual:
  assumes "courses P = [''A'']" "time_slots P = [''T1'']" "rooms P = [''R1'']"
  shows "create_individual P (\<lambda>i. 0) = Inr (wit_schedule, \<lambda>i. 0)"
  by (simp add: create_individual_def random_choice_def assms wit_schedule_def rng_tail_def)

lemma wit_create_population:
  assumes "courses P = [''A'']" "time_slots P = [''T1'']" "rooms P = [''R1'']"
  shows "create_population P n (\<lambda>i. 0) = Inr (replicate n wit_schedule, \<lambda>i. 0)"
  by (induction n) (simp_all add: wit_create_individual [OF assms])

lemma wit_ga_init:
  assumes "courses P = [''A'']" "time_slots P = [''T1'']" "rooms P = [''R1'']"
  shows "ga_init (wit_ga_config (int n) gens) P (\<lambda>i. 0) = Inr (wit_ga_state n, \<lambda>i. 0)"
  by (simp add: ga_init_def wit_ga_config_def wit_create_population [OF assms] wit_ga_state_def)


lemma wit_ga_fitness: "ga_fitness wit_problem wit_schedule = 0"
  using wit_fitness by (simp add: sa_fitness_eq)

lemma list_index_replicate: "0 < n \<Longrightarrow> list_index (replicate n x) x = Inr 0"
  by (cases n) simp_all

lemma wit_ga_evaluate:
  assumes "ga_fitness P wit_schedule = f" and "0 < n"
  shows "ga_evaluate P (wit_ga_state n) = Inr (replicate n f, wit_ga_evaluated n f)"
proof -
  have m: "map (\<lambda>ind. ga_fitness P (replicate n wit_schedule ! ind)) [0..<n] = replicate n f"
    using assms(1) by (intro nth_equalityI) simp_all
  have mx: "py_max (replicate n f) = Inr f"
  proof -
    have "fold max (replicate k f) f = f" for k by (induction k) simp_all
    with assms(2) show ?thesis by (cases n) simp_all
  qed
  show ?thesis
    using assms(2)
    by (simp add: ga_evaluate_def wit_ga_state_def wit_ga_evaluated_def m mx Let_def
        list_index_replicate list_getitem_def)
qed




subsection \<open>Size of the population\<close>

text \<open>
  C4. The population after a generation: selection picks \<open>population_size\<close> parents and
  every pass of the pairing loop adds two children, so the child generation has
  \<open>population_size\<close> members when that number is even and \<open>population_size + 1\<close> members
  when it is odd.
\<close>

theorem C4_population_after_breeding:
  assumes "ga_breed cfg P fitnesses s g = Inr (s', g')" and "0 \<le> population_size cfg"
  shows "length (population s') =
           (if even (population_size cfg) then nat (population_size cfg)
            else nat (population_size cfg) + 1)"
proof -
  from ga_breed_Inr [OF assms(1)]
  have "length (population s') = 2 * ((nat (population_size cfg) + 1) div 2)" by simp
  moreover have "even (nat (population_size cfg)) \<longleftrightarrow> even (population_size cfg)"
    using assms(2) by (simp add: even_nat_iff)
  ultimately show ?thesis by (auto elim!: evenE oddE)
qed

theorem C4_population_after_breeding_witness:
  "\<exists>s' g'. ga_breed (wit_ga_config 3 2) wit_tight (replicate 3 (- 10000))
              (wit_ga_evaluated 3 (- 10000)) (\<lambda>i. 0) = Inr (s', g')
     \<and> length (population (wit_ga_evaluated 3 (- 10000))) = 3
     \<and> length (population s') = 4"
proof -
  have t: "tournament_size \<le>
      length (zip (population (wit_ga_evaluated 3 (- 10000))) (replicate 3 (- 10000 :: int)))"
    by (simp add: wit_ga_evaluated_def tournament_size_def)
  have r: "refs_ok (ga_heap (wit_ga_evaluated 3 (- 10000))) (population (wit_ga_evaluated 3 (- 10000)))"
    by (simp add: wit_ga_evaluated_def refs_ok_def)
  have k: "keys_ok wit_tight (ga_heap (wit_ga_evaluated 3 (- 10000)))"
    by (simp add: wit_ga_evaluated_def keys_ok_def wit_tight_def wit_problem_def wit_schedule_def)
  have ts: "time_slots wit_tight \<noteq> []" "rooms wit_tight \<noteq> []"
    by (simp_all add: wit_tight_def wit_problem_def)
  from ga_breed_ok [OF t r k ts, of "wit_ga_config 3 2" "\<lambda>i. 0"] obtain s' g' where
    b: "ga_breed (wit_ga_config 3 2) wit_tight (replicate 3 (- 10000))
          (wit_ga_evaluated 3 (- 10000)) (\<lambda>i. 0) = Inr (s', g')"
    by (metis surj_pair)
  have p: "0 \<le> population_size (wit_ga_config 3 2)" by (simp add: wit_ga_config_def)
  have "length (population s') = 4"
    using C4_population_after_breeding [OF b p] by (simp add: wit_ga_config_def)
  moreover have "length (population (wit_ga_evaluated 3 (- 10000))) = 3"
    by (simp add: wit_ga_evaluated_def)
  ultimately show ?thesis using b by blast
qed

subsection \<open>Failures\<close>








subsection \<open>Early stop\<close>

text \<open>
  C8. If the evaluation step of a generation leaves the global best fitness at exactly 0,
  the run stops in that generation, however many generations remain: the result is the
  state right after the evaluation, with the store and the population untouched, one
  history entry added, and the random source where it was (no selection, crossover or
  mutation has drawn from it); the recorded best individual has fitness 0.
\<close>

theorem C8_early_stop:
  assumes "ga_wf P s" and "ga_evaluate P s = Inr (fitnesses, s1)"
    and "ga_best_fitness s1 = Some 0"
  shows "ga_loop cfg P (Suc k) s g = Inr (s1, g)
     \<and> (0 < generations cfg \<longrightarrow> ga_run cfg P s g = Inr (ga_best_individual s1, s1, g))
     \<and> ga_heap s1 = ga_heap s \<and> population s1 = population s
     \<and> length (current_best_history s1) = Suc (length (current_best_history s))
     \<and> (\<exists>r. ga_best_individual s1 = Some r \<and> r < length (ga_heap s1)
            \<and> ga_fitness P (ga_heap s1 ! r) = 0)"
proof -
  note ev = ga_evaluate_Inr [OF assms(2)]
  from assms(1) ev have "best_ok P s1" "ga_best_individual s1 \<noteq> None"
    by (auto simp: ga_wf_def)
  with assms(3) have r: "\<exists>r. ga_best_individual s1 = Some r \<and> r < length (ga_heap s1)
            \<and> ga_fitness P (ga_heap s1 ! r) = 0"
    by (auto simp: best_ok_def split: option.splits)
  have stop: "ga_loop cfg P (Suc j) s g = Inr (s1, g)" for j
    using assms(2,3) by simp
  have "ga_run cfg P s g = Inr (ga_best_individual s1, s1, g)" if "0 < generations cfg"
  proof -
    from that obtain j where "nat (generations cfg) = Suc j"
      by (cases "nat (generations cfg)") auto
    with stop [of j] show ?thesis by (simp add: ga_run_def)
  qed
  with r ev stop [of k] show ?thesis by simp
qed

theorem C8_early_stop_witness:
  "ga_wf wit_problem (wit_ga_state 1)
   \<and> ga_evaluate wit_problem (wit_ga_state 1) = Inr (replicate 1 0, wit_ga_evaluated 1 0)
   \<and> ga_best_fitness (wit_ga_evaluated 1 0) = Some 0
   \<and> ga_loop (wit_ga_config 1 5) wit_problem (Suc 4) (wit_ga_state 1) (\<lambda>i. 0)
       = Inr (wit_ga_evaluated 1 0, \<lambda>i. 0)
   \<and> 0 < generations (wit_ga_config 1 5)
   \<and> ga_run (wit_ga_config 1 5) wit_problem (wit_ga_state 1) (\<lambda>i. 0)
       = Inr (ga_best_individual (wit_ga_evaluated 1 0), wit_ga_evaluated 1 0, \<lambda>i. 0)
   \<and> length (current_best_history (wit_ga_evaluated 1 0)) = 1
   \<and> (\<exists>r. ga_best_individual (wit_ga_evaluated 1 0) = Some r
          \<and> ga_fitness wit_problem (ga_heap (wit_ga_evaluated 1 0) ! r) = 0)"
proof -
  have wf: "ga_wf wit_problem (wit_ga_state 1)"
    by (simp add: ga_wf_def refs_ok_def keys_ok_def best_ok_def wit_ga_state_def
        wit_problem_def wit_schedule_def)
  have e: "ga_evaluate wit_problem (wit_ga_state 1) = Inr (replicate 1 0, wit_ga_evaluated 1 0)"
    by (rule wit_ga_evaluate [OF wit_ga_fitness]) simp
  have b: "ga_best_fitness (wit_ga_evaluated 1 0) = Some 0"
    by (simp add: wit_ga_evaluated_def)
  have h: "length (current_best_history (wit_ga_state 1)) = 0"
    by (simp add: wit_ga_state_def)
  have gens: "0 < generations (wit_ga_config 1 5)" by (simp add: wit_ga_config_def)
  show ?thesis
    using wf e b h gens C8_early_stop [OF wf e b, of "wit_ga_config 1 5" 4 "\<lambda>i. 0"]
    by auto
qed

subsection \<open>The recorded best individual\<close>

lemma fitness_of_ref_Some: "fitness_of_ref P h (Some r) = Inr (ga_fitness P (h ! r))"
  by (simp add: fitness_of_ref_def)

text \<open>
  C10 (as amended). The recorded best schedule is never changed after it is stored.
  Genetic engine: breeding (selection, crossover, mutation) leaves every dict that was
  allocated before it as it was and does not touch the best-tracking attributes; over
  any number of generations the dicts of the store at a loop head, the recorded best
  among them, are unchanged at the end; and a run of at least one generation, from a
  fresh engine, returns a schedule whose fitness is the stored best fitness.
  Annealing engine: an iteration leaves every dict allocated before it as it was, and a
  run from a fresh engine returns a schedule whose fitness is the stored best fitness.
\<close>

theorem C10_best_individual_stable:
  "(ga_breed cfg P fitnesses s1 g1 = Inr (s2, g2) \<longrightarrow>
      (\<forall>a < length (ga_heap s1). ga_heap s2 ! a = ga_heap s1 ! a)
      \<and> ga_best_individual s2 = ga_best_individual s1
      \<and> ga_best_fitness s2 = ga_best_fitness s1)
   \<and> (ga_wf P s \<and> ga_loop cfg P k s g = Inr (s', g') \<longrightarrow>
      ga_wf P s' \<and> (\<forall>a < length (ga_heap s). ga_heap s' ! a = ga_heap s ! a))
   \<and> (ga_init cfg P g0 = Inr (s, g) \<and> ga_run cfg P s g = Inr (b, s', g')
        \<and> 0 < generations cfg \<longrightarrow>
      (\<exists>r. b = Some r \<and> ga_best_individual s' = Some r \<and> r < length (ga_heap s')
           \<and> fitness_of_ref P (ga_heap s') b = Inr (ga_fitness P (ga_heap s' ! r))
           \<and> ga_best_fitness s' = Some (ga_fitness P (ga_heap s' ! r))))
   \<and> (sa_inv P l t \<and> sa_step fl rate P l t h = Inr (Some (l1, t1, h1)) \<longrightarrow>
      sa_inv P l1 t1 \<and> (\<forall>a < length (sa_heap t). sa_heap t1 ! a = sa_heap t ! a))
   \<and> (sa_init P g0 = Inr (t, h) \<and> sa_run fl sa_cfg P t h = Inr (c, t', h') \<longrightarrow>
      (\<forall>a < length (sa_heap t). sa_heap t' ! a = sa_heap t ! a)
      \<and> (\<exists>r. c = Some r \<and> sa_best_individual t' = Some r \<and> r < length (sa_heap t')
           \<and> sa_best_fitness t' = Some (sa_fitness P (sa_heap t' ! r))))"
proof (intro conjI impI)
  assume "ga_breed cfg P fitnesses s1 g1 = Inr (s2, g2)"
  from ga_breed_Inr [OF this]
  show "\<forall>a < length (ga_heap s1). ga_heap s2 ! a = ga_heap s1 ! a"
    and "ga_best_individual s2 = ga_best_individual s1"
    and "ga_best_fitness s2 = ga_best_fitness s1"
    by simp_all
next
  assume "ga_wf P s \<and> ga_loop cfg P k s g = Inr (s', g')"
  then have "ga_loop cfg P k s g = Inr (s', g')" "ga_wf P s" by simp_all
  from ga_loop_inv [OF this]
  show "ga_wf P s'" and "\<forall>a < length (ga_heap s). ga_heap s' ! a = ga_heap s ! a"
    by simp_all
next
  assume a: "ga_init cfg P g0 = Inr (s, g) \<and> ga_run cfg P s g = Inr (b, s', g')
        \<and> 0 < generations cfg"
  then have wf: "ga_wf P s" using ga_init_Inr [of cfg P g0 s g] by simp
  from a have lp: "ga_loop cfg P (nat (generations cfg)) s g = Inr (s', g')"
    and b: "b = ga_best_individual s'"
    by (auto simp: ga_run_def split: sum.splits)
  from ga_loop_inv [OF lp wf] a have "best_ok P s'" "ga_best_individual s' \<noteq> None"
    by (auto simp: ga_wf_def)
  then show "\<exists>r. b = Some r \<and> ga_best_individual s' = Some r \<and> r < length (ga_heap s')
           \<and> fitness_of_ref P (ga_heap s') b = Inr (ga_fitness P (ga_heap s' ! r))
           \<and> ga_best_fitness s' = Some (ga_fitness P (ga_heap s' ! r))"
    using b by (auto simp: best_ok_def fitness_of_ref_def split: option.splits)
next
  assume "sa_inv P l t \<and> sa_step fl rate P l t h = Inr (Some (l1, t1, h1))"
  then have "sa_step fl rate P l t h = Inr (Some (l1, t1, h1))" "sa_inv P l t" by simp_all
  from sa_step_Some [OF this]
  show "sa_inv P l1 t1" and "\<forall>a < length (sa_heap t). sa_heap t1 ! a = sa_heap t ! a"
    by simp_all
next
  assume a: "sa_init P g0 = Inr (t, h) \<and> sa_run fl sa_cfg P t h = Inr (c, t', h')"
  let ?f0 = "sa_fitness P (sa_heap t ! sa_current t)"
  let ?t0 = "t\<lparr>sa_best_individual := Some (sa_current t), sa_best_fitness := Some ?f0\<rparr>"
  let ?l0 = "\<lparr>temperature = initial_temperature sa_cfg, current = sa_current t,
               current_fitness = ?f0\<rparr>"
  from a have i: "sa_current t = 0" "length (sa_heap t) = 1"
    using sa_init_Inr [of P g0 t h] by simp_all
  from a have lp: "sa_loop fl (cooling_rate sa_cfg) P (nat (max_iter sa_cfg)) ?l0 ?t0 h
      = Inr (t', h')" and c: "c = sa_best_individual t'"
    by (auto simp: sa_run_def Let_def split: sum.splits)
  have inv: "sa_inv P ?l0 ?t0" using i by (simp add: sa_inv_def)
  note r = sa_loop_inv [OF lp inv]
  from r show "\<forall>a < length (sa_heap t). sa_heap t' ! a = sa_heap t ! a" by simp
  from r c show "\<exists>r. c = Some r \<and> sa_best_individual t' = Some r \<and> r < length (sa_heap t')
           \<and> sa_best_fitness t' = Some (sa_fitness P (sa_heap t' ! r))"
    by auto
qed

text \<open>
  The claim as first stated fails for a genetic run of zero generations: the run returns
  \<^verbatim>\<open>None\<close>, the stored best fitness is still \<^verbatim>\<open>float('-inf')\<close>, and the fitness of
  \<^verbatim>\<open>None\<close> raises AttributeError.
\<close>

theorem C10_zero_generations_counterexample:
  "ga_init (wit_ga_config 3 0) wit_problem (\<lambda>i. 0) = Inr (wit_ga_state 3, \<lambda>i. 0)
   \<and> ga_run (wit_ga_config 3 0) wit_problem (wit_ga_state 3) (\<lambda>i. 0)
       = Inr (None, wit_ga_state 3, \<lambda>i. 0)
   \<and> ga_best_fitness (wit_ga_state 3) = None
   \<and> fitness_of_ref wit_problem (ga_heap (wit_ga_state 3)) None = Inl AttributeError"
proof -
  have p: "courses wit_problem = [''A'']" "time_slots wit_problem = [''T1'']"
    "rooms wit_problem = [''R1'']"
    by (simp_all add: wit_problem_def)
  have "ga_init (wit_ga_config 3 0) wit_problem (\<lambda>i. 0) = Inr (wit_ga_state 3, \<lambda>i. 0)"
    using wit_ga_init [OF p, of 3 0] by simp
  then show ?thesis
    by (simp add: ga_run_def wit_ga_config_def wit_ga_state_def fitness_of_ref_def)
qed


lemma wit_ga_loop_early:
  "ga_loop (wit_ga_config 1 5) wit_problem (Suc 4) (wit_ga_state 1) (\<lambda>i. 0)
     = Inr (wit_ga_evaluated 1 0, \<lambda>i. 0)"
proof -
  have "ga_evaluate wit_problem (wit_ga_state 1) = Inr (replicate 1 0, wit_ga_evaluated 1 0)"
    by (rule wit_ga_evaluate [OF wit_ga_fitness]) simp
  then show ?thesis
    unfolding ga_loop.simps by (simp add: wit_ga_evaluated_def)
qed

lemma wit_ga_run_early:
  "ga_run (wit_ga_config 1 5) wit_problem (wit_ga_state 1) (\<lambda>i. 0)
     = Inr (Some 0, wit_ga_evaluated 1 0, \<lambda>i. 0)"
proof -
  have "nat (generations (wit_ga_config 1 5)) = Suc 4" by (simp add: wit_ga_config_def)
  then show ?thesis
    using wit_ga_loop_early by (simp add: ga_run_def wit_ga_evaluated_def)
qed

lemma wit_ga_wf: "ga_wf wit_problem (wit_ga_state 1)"
  by (simp add: ga_wf_def refs_ok_def keys_ok_def best_ok_def wit_ga_state_def
      wit_problem_def wit_schedule_def)

lemma wit_ga_breed:
  "\<exists>s2 g2. ga_breed (wit_ga_config 3 2) wit_tight (replicate 3 (- 10000))
              (wit_ga_evaluated 3 (- 10000)) (\<lambda>i. 0) = Inr (s2, g2)"
proof -
  have t: "tournament_size \<le>
      length (zip (population (wit_ga_evaluated 3 (- 10000))) (replicate 3 (- 10000 :: int)))"
    by (simp add: wit_ga_evaluated_def tournament_size_def)
  have r: "refs_ok (ga_heap (wit_ga_evaluated 3 (- 10000))) (population (wit_ga_evaluated 3 (- 10000)))"
    by (simp add: wit_ga_evaluated_def refs_ok_def)
  have k: "keys_ok wit_tight (ga_heap (wit_ga_evaluated 3 (- 10000)))"
    by (simp add: wit_ga_evaluated_def keys_ok_def wit_tight_def wit_problem_def wit_schedule_def)
  have ts: "time_slots wit_tight \<noteq> []" "rooms wit_tight \<noteq> []"
    by (simp_all add: wit_tight_def wit_problem_def)
  from ga_breed_ok [OF t r k ts, of "wit_ga_config 3 2" "\<lambda>i. 0"] show ?thesis
    by (metis surj_pair)
qed

lemma wit_sa_step:
  "sa_step ideal_float_ops (995 / 1000) wit_problem (wit_sa_locals 1000 0)
     (wit_sa_state0\<lparr>sa_best_individual := Some 0, sa_best_fitness := Some 0\<rparr>) (\<lambda>i. 0)
   = Inr (Some (wit_sa_locals 995 1, wit_sa_state1, \<lambda>i. 0))"
  by (simp add: sa_step_def wit_neighbor wit_fitness ideal_float_ops_def random_random_def
      rng_tail_def Let_def wit_sa_state0_def wit_sa_state1_def wit_sa_locals_def)

lemma wit_sa_inv:
  "sa_inv wit_problem (wit_sa_locals 1000 0)
     (wit_sa_state0\<lparr>sa_best_individual := Some 0, sa_best_fitness := Some 0\<rparr>)"
  by (simp add: sa_inv_def wit_sa_locals_def wit_sa_state0_def wit_fitness)

theorem C10_best_individual_stable_witness:
  "(\<exists>s2 g2. ga_breed (wit_ga_config 3 2) wit_tight (replicate 3 (- 10000))
              (wit_ga_evaluated 3 (- 10000)) (\<lambda>i. 0) = Inr (s2, g2)
       \<and> (\<forall>a < length (ga_heap (wit_ga_evaluated 3 (- 10000))).
             ga_heap s2 ! a = ga_heap (wit_ga_evaluated 3 (- 10000)) ! a)
       \<and> ga_best_individual s2 = ga_best_individual (wit_ga_evaluated 3 (- 10000)))
   \<and> ga_wf wit_problem (wit_ga_state 1)
   \<and> ga_loop (wit_ga_config 1 5) wit_problem (Suc 4) (wit_ga_state 1) (\<lambda>i. 0)
       = Inr (wit_ga_evaluated 1 0, \<lambda>i. 0)
   \<and> ga_wf wit_problem (wit_ga_evaluated 1 0)
   \<and> ga_init (wit_ga_config 1 5) wit_problem (\<lambda>i. 0) = Inr (wit_ga_state 1, \<lambda>i. 0)
   \<and> ga_run (wit_ga_config 1 5) wit_problem (wit_ga_state 1) (\<lambda>i. 0)
       = Inr (Some 0, wit_ga_evaluated 1 0, \<lambda>i. 0)
   \<and> 0 < generations (wit_ga_config 1 5)
   \<and> ga_best_fitness (wit_ga_evaluated 1 0)
       = Some (ga_fitness wit_problem (ga_heap (wit_ga_evaluated 1 0) ! 0))
   \<and> sa_inv wit_problem (wit_sa_locals 1000 0)
       (wit_sa_state0\<lparr>sa_best_individual := Some 0, sa_best_fitness := Some 0\<rparr>)
   \<and> sa_step ideal_float_ops (995 / 1000) wit_problem (wit_sa_locals 1000 0)
       (wit_sa_state0\<lparr>sa_best_individual := Some 0, sa_best_fitness := Some 0\<rparr>) (\<lambda>i. 0)
       = Inr (Some (wit_sa_locals 995 1, wit_sa_state1, \<lambda>i. 0))
   \<and> sa_inv wit_problem (wit_sa_locals 995 1) wit_sa_state1
   \<and> sa_init wit_problem (\<lambda>i. 0) = Inr (wit_sa_state0, \<lambda>i. 0)
   \<and> sa_run ideal_float_ops wit_sa_config wit_problem wit_sa_state0 (\<lambda>i. 0)
       = Inr (Some 0, wit_sa_state1, \<lambda>i. 0)
   \<and> sa_best_fitness wit_sa_state1
       = Some (sa_fitness wit_problem (sa_heap wit_sa_state1 ! 0))"
proof -
  from wit_ga_breed obtain s2 g2 where
    b: "ga_breed (wit_ga_config 3 2) wit_tight (replicate 3 (- 10000))
          (wit_ga_evaluated 3 (- 10000)) (\<lambda>i. 0) = Inr (s2, g2)" by blast
  note breed = C10_best_individual_stable
      [where cfg = "wit_ga_config 3 2" and P = wit_tight and fitnesses = "replicate 3 (- 10000)"
         and ?s1.0 = "wit_ga_evaluated 3 (- 10000)" and ?g1.0 = "\<lambda>i. 0"
         and ?s2.0 = s2 and ?g2.0 = g2
         and s = "wit_ga_state 1"
         and k = "Suc 4" and g = "\<lambda>i. 0" and s' = "wit_ga_evaluated 1 0" and g' = "\<lambda>i. 0"
         and ?g0.0 = "\<lambda>i. 0" and b = "Some 0"
         and l = "wit_sa_locals 1000 0"
         and t = wit_sa_state0
         and fl = ideal_float_ops and rate = "995 / 1000" and h = "\<lambda>i. 0"
         and ?l1.0 = "wit_sa_locals 995 1" and ?t1.0 = wit_sa_state1 and ?h1.0 = "\<lambda>i. 0"
         and sa_cfg = wit_sa_config and c = "Some 0"
         and t' = wit_sa_state1 and h' = "\<lambda>i. 0", THEN conjunct1]
  have 1: "(\<forall>a < length (ga_heap (wit_ga_evaluated 3 (- 10000))).
             ga_heap s2 ! a = ga_heap (wit_ga_evaluated 3 (- 10000)) ! a)
       \<and> ga_best_individual s2 = ga_best_individual (wit_ga_evaluated 3 (- 10000))"
    using breed b by simp
  have p: "courses wit_problem = [''A'']" "time_slots wit_problem = [''T1'']"
    "rooms wit_problem = [''R1'']"
    by (simp_all add: wit_problem_def)
  have i: "ga_init (wit_ga_config 1 5) wit_problem (\<lambda>i. 0) = Inr (wit_ga_state 1, \<lambda>i. 0)"
    using wit_ga_init [OF p, of 1 5] by simp
  have gens: "0 < generations (wit_ga_config 1 5)" by (simp add: wit_ga_config_def)
  note rest = C10_best_individual_stable
      [where cfg = "wit_ga_config 1 5" and P = wit_problem and fitnesses = "replicate 3 (- 10000)"
         and ?s1.0 = "wit_ga_evaluated 3 (- 10000)" and ?g1.0 = "\<lambda>i. 0"
         and ?s2.0 = s2 and ?g2.0 = g2
         and s = "wit_ga_state 1"
         and k = "Suc 4" and g = "\<lambda>i. 0" and s' = "wit_ga_evaluated 1 0" and g' = "\<lambda>i. 0"
         and ?g0.0 = "\<lambda>i. 0" and b = "Some 0"
         and l = "wit_sa_locals 1000 0"
         and t = "wit_sa_state0\<lparr>sa_best_individual := Some 0, sa_best_fitness := Some 0\<rparr>"
         and fl = ideal_float_ops and rate = "995 / 1000" and h = "\<lambda>i. 0"
         and ?l1.0 = "wit_sa_locals 995 1" and ?t1.0 = wit_sa_state1 and ?h1.0 = "\<lambda>i. 0"
         and sa_cfg = wit_sa_config and c = "Some 0"
         and t' = wit_sa_state1 and h' = "\<lambda>i. 0", THEN conjunct2]
  note loop = rest [THEN conjunct1]
  note run = rest [THEN conjunct2, THEN conjunct1]
  note step = rest [THEN conjunct2, THEN conjunct2, THEN conjunct1]
  have 2: "ga_wf wit_problem (wit_ga_evaluated 1 0)"
    using loop wit_ga_wf wit_ga_loop_early by simp
  have 3: "ga_best_fitness (wit_ga_evaluated 1 0)
       = Some (ga_fitness wit_problem (ga_heap (wit_ga_evaluated 1 0) ! 0))"
    using run i wit_ga_run_early gens by simp
  have 4: "sa_inv wit_problem (wit_sa_locals 995 1) wit_sa_state1"
    using step wit_sa_inv wit_sa_step by simp
  note sarun = C10_best_individual_stable
      [where cfg = "wit_ga_config 1 5" and P = wit_problem and fitnesses = "replicate 3 (- 10000)"
         and ?s1.0 = "wit_ga_evaluated 3 (- 10000)" and ?g1.0 = "\<lambda>i. 0"
         and ?s2.0 = s2 and ?g2.0 = g2
         and s = "wit_ga_state 1"
         and k = "Suc 4" and g = "\<lambda>i. 0" and s' = "wit_ga_evaluated 1 0" and g' = "\<lambda>i. 0"
         and ?g0.0 = "\<lambda>i. 0" and b = "Some 0"
         and l = "wit_sa_locals 1000 0"
         and t = wit_sa_state0
         and fl = ideal_float_ops and rate = "995 / 1000" and h = "\<lambda>i. 0"
         and ?l1.0 = "wit_sa_locals 995 1" and ?t1.0 = wit_sa_state1 and ?h1.0 = "\<lambda>i. 0"
         and sa_cfg = wit_sa_config and c = "Some 0"
         and t' = wit_sa_state1 and h' = "\<lambda>i. 0",
       THEN conjunct2, THEN conjunct2, THEN conjunct2, THEN conjunct2]
  have 5: "sa_best_fitness wit_sa_state1
       = Some (sa_fitness wit_problem (sa_heap wit_sa_state1 ! 0))"
    using sarun wit_sa_init wit_sa_run by simp
  show ?thesis
    using b 1 wit_ga_wf wit_ga_loop_early 2 i wit_ga_run_early gens 3 wit_sa_inv wit_sa_step
      4 wit_sa_init wit_sa_run 5
    by (intro conjI exI [of _ s2] exI [of _ g2]) (assumption | simp)+
qed

section \<open>The acceptance test of the annealing engine\<close>

lemma round_half_even_int [simp]: "round_half_even (of_int n) = n"
  by (simp add: round_half_even_def)








lemma inverse_power_int_nonpos:
  "k \<le> 0 \<Longrightarrow> 1 / (2 powi k :: real) = of_int (2 ^ nat (- k))"
  by (cases "k = 0") (simp_all add: power_int_def power_inverse field_simps)






























end
